theory Spec2Isabelle
  imports Complex_Main "HOL-Library.AList"
begin

section \<open>JavaScript strings and values\<close>

text \<open>
  A JavaScript string is modelled as a \<^typ>\<open>string\<close>: a list of code units below 256
  (ASCII and Latin-1). The white space of \<^verbatim>\<open>String.prototype.trim\<close> and of the regular
  expression class \<^verbatim>\<open>\s\<close> in that range is TAB, LF, VT, FF, CR, SPACE and NBSP.
\<close>

definition isWhiteSpace :: "char \<Rightarrow> bool" where
  "isWhiteSpace c =
     (c \<in> set [CHR 0x09, CHR 0x0A, CHR 0x0B, CHR 0x0C, CHR 0x0D, CHR '' '', CHR 0xA0])"

definition trimStart :: "string \<Rightarrow> string" where
  "trimStart s = dropWhile isWhiteSpace s"

definition trim :: "string \<Rightarrow> string" where
  "trim s = rev (trimStart (rev (trimStart s)))"

definition isDigit :: "char \<Rightarrow> bool" where
  "isDigit c = (c \<in> set ''0123456789'')"

definition digitChar :: "nat \<Rightarrow> char" where
  "digitChar n = ''0123456789'' ! n"

fun showNat :: "nat \<Rightarrow> string" where
  "showNat n = (if n < 10 then [digitChar n] else showNat (n div 10) @ [digitChar (n mod 10)])"

declare showNat.simps [simp del]

definition showInt :: "int \<Rightarrow> string" where
  "showInt i = (if i < 0 then ''-'' @ showNat (nat (- i)) else showNat (nat i))"

text \<open>
  The values a submitted mapping can hold. Reading a key that the mapping does not have
  gives \<open>JUndefined\<close>. A number is an integer here: \<^verbatim>\<open>String(n)\<close> is then its decimal
  numeral.

  An object is modelled by its own keys. The members that every object inherits
  (\<^verbatim>\<open>constructor\<close>, \<^verbatim>\<open>toString\<close>, \<^verbatim>\<open>__proto__\<close> and the like) are not modelled: field ids
  and normalized tenant ids are taken to be none of these names, and a value is never an
  object, an array or a function.
\<close>

datatype jsval = JUndefined | JNull | JBool bool | JNum int | JStr string

text \<open>\<^verbatim>\<open>!value\<close> is \<open>\<not> truthy value\<close>.\<close>

fun truthy :: "jsval \<Rightarrow> bool" where
  "truthy JUndefined = False"
| "truthy JNull = False"
| "truthy (JBool b) = b"
| "truthy (JNum n) = (n \<noteq> 0)"
| "truthy (JStr s) = (s \<noteq> [])"

text \<open>\<^verbatim>\<open>String(value)\<close>.\<close>

fun String :: "jsval \<Rightarrow> string" where
  "String JUndefined = ''undefined''"
| "String JNull = ''null''"
| "String (JBool b) = (if b then ''true'' else ''false'')"
| "String (JNum n) = showInt n"
| "String (JStr s) = s"

text \<open>\<^verbatim>\<open>a || b\<close> on an optional string: the empty string is falsy as well.\<close>

fun orElse :: "string option \<Rightarrow> string \<Rightarrow> string" where
  "orElse None d = d"
| "orElse (Some m) d = (if m = [] then d else m)"

text \<open>
  The regular expression engine of the runtime is a parameter: for a pattern source it
  gives \<open>None\<close> when \<^verbatim>\<open>new RegExp(pattern)\<close> throws a SyntaxError, and otherwise the
  function \<^verbatim>\<open>regex.test\<close> of the compiled expression.
\<close>

type_synonym regexp = "string \<Rightarrow> (string \<Rightarrow> bool) option"

section \<open>Schema model\<close>

datatype fieldType = TText | TEmail | TPhone | TNumber | TTextarea | TSelect

record selectOption =
  opt_label :: string
  opt_value :: string

record validation =
  required :: bool
  minLength :: "int option"
  maxLength :: "int option"
  pattern :: "string option"

record field =
  field_id :: string
  label :: string
  field_type :: fieldType
  options :: "selectOption list option"
  validation :: validation
  errorMessage :: "string option"

section \<open>Shared validation (shared/validation.js)\<close>

text \<open>\<^verbatim>\<open>/^[^\s@]+@[^\s@]+\.[^\s@]+$/\<close>: one \<open>@\<close>, no white space, something before it,
  and after it a dot that is neither the first nor the last character.\<close>

definition emailRegex_test :: "string \<Rightarrow> bool" where
  "emailRegex_test s =
     (let a = takeWhile (\<lambda>c. c \<noteq> CHR ''@'') s; r = dropWhile (\<lambda>c. c \<noteq> CHR ''@'') s
      in a \<noteq> [] \<and> r \<noteq> [] \<and> (\<forall>c \<in> set a. \<not> isWhiteSpace c)
         \<and> (\<forall>c \<in> set (tl r). \<not> isWhiteSpace c \<and> c \<noteq> CHR ''@'')
         \<and> CHR ''.'' \<in> set (butlast (tl (tl r))))"

definition validateEmail :: "string \<Rightarrow> string \<Rightarrow> string option" where
  "validateEmail value errMsg = (if \<not> emailRegex_test value then Some errMsg else None)"

text \<open>\<^verbatim>\<open>value.replace(/[\s\-\(\)]/g, '')\<close> and \<^verbatim>\<open>/^[0-9]{10,15}$/\<close>.\<close>

definition cleanPhone :: "string \<Rightarrow> string" where
  "cleanPhone v = filter (\<lambda>c. \<not> (isWhiteSpace c \<or> c \<in> set ''-()'')) v"

definition phoneRegex_test :: "string \<Rightarrow> bool" where
  "phoneRegex_test s = (10 \<le> length s \<and> length s \<le> 15 \<and> (\<forall>c \<in> set s. isDigit c))"

definition validatePhone :: "string \<Rightarrow> string \<Rightarrow> string option" where
  "validatePhone value errMsg =
     (let cleanedPhone = cleanPhone value
      in if \<not> phoneRegex_test cleanedPhone then Some errMsg else None)"

text \<open>
  \<^verbatim>\<open>isNaN(value)\<close> on a string converts it with \<^verbatim>\<open>Number\<close>: white space around a numeric
  literal is ignored, the blank string is 0, and the literal is a signed decimal literal
  (digits, an optional fraction, an optional exponent, or \<^verbatim>\<open>Infinity\<close>) or an unsigned
  binary, octal or hexadecimal integer literal.
\<close>

definition dropSign :: "string \<Rightarrow> string" where
  "dropSign s = (case s of [] \<Rightarrow> [] | c # r \<Rightarrow> if c = CHR ''+'' \<or> c = CHR ''-'' then r else s)"

definition isExponentPart :: "string \<Rightarrow> bool" where
  "isExponentPart s =
     (case s of [] \<Rightarrow> False
      | c # r \<Rightarrow> (c = CHR ''e'' \<or> c = CHR ''E'')
                 \<and> dropSign r \<noteq> [] \<and> (\<forall>d \<in> set (dropSign r). isDigit d))"

definition isStrUnsignedDecimalLiteral :: "string \<Rightarrow> bool" where
  "isStrUnsignedDecimalLiteral s =
     (if s = ''Infinity'' then True
      else let ip = takeWhile isDigit s; r = dropWhile isDigit s
           in case r of
                [] \<Rightarrow> ip \<noteq> []
              | c # r' \<Rightarrow>
                  if c = CHR ''.''
                  then let fp = takeWhile isDigit r'; e = dropWhile isDigit r'
                       in (ip \<noteq> [] \<or> fp \<noteq> []) \<and> (e = [] \<or> isExponentPart e)
                  else ip \<noteq> [] \<and> isExponentPart r)"

definition isNonDecimalIntegerLiteral :: "string \<Rightarrow> bool" where
  "isNonDecimalIntegerLiteral s =
     (case s of
        z # x # ds \<Rightarrow>
          z = CHR ''0'' \<and> ds \<noteq> []
          \<and> ((x \<in> set ''xX'' \<and> (\<forall>d \<in> set ds. d \<in> set ''0123456789abcdefABCDEF''))
             \<or> (x \<in> set ''oO'' \<and> (\<forall>d \<in> set ds. d \<in> set ''01234567''))
             \<or> (x \<in> set ''bB'' \<and> (\<forall>d \<in> set ds. d \<in> set ''01'')))
      | _ \<Rightarrow> False)"

definition isNaN :: "string \<Rightarrow> bool" where
  "isNaN s =
     (let t = trim s
      in \<not> (t = [] \<or> isStrUnsignedDecimalLiteral (dropSign t) \<or> isNonDecimalIntegerLiteral t))"

definition validateNumber :: "string \<Rightarrow> string \<Rightarrow> string option" where
  "validateNumber value errMsg = (if isNaN value \<or> value = [] then Some errMsg else None)"

definition validateSelect :: "string \<Rightarrow> selectOption list option \<Rightarrow> string \<Rightarrow> string option" where
  "validateSelect value opts errMsg =
     (case opts of
        None \<Rightarrow> None
      | Some os \<Rightarrow>
          if length os = 0 then None
          else let validValues = map opt_value os
               in if value \<notin> set validValues then Some errMsg else None)"

definition validateByType :: "field \<Rightarrow> string \<Rightarrow> string option" where
  "validateByType f value =
     (case field_type f of
        TEmail \<Rightarrow> validateEmail value (orElse (errorMessage f) ''Please enter a valid email address'')
      | TPhone \<Rightarrow> validatePhone value (orElse (errorMessage f) ''Please enter a valid phone number'')
      | TNumber \<Rightarrow> validateNumber value (orElse (errorMessage f) ''Please enter a valid number'')
      | TSelect \<Rightarrow>
          validateSelect value (options f) (orElse (errorMessage f) ''Please select a valid option'')
      | _ \<Rightarrow> None)"

text \<open>
  A number used as a condition (\<^verbatim>\<open>field.validation.minLength && ...\<close>) counts when it is
  there and is not 0; a string used as a condition counts when it is there and not empty.
\<close>

fun numSet :: "int option \<Rightarrow> bool" where
  "numSet None = False"
| "numSet (Some n) = (n \<noteq> 0)"

fun strSet :: "string option \<Rightarrow> bool" where
  "strSet None = False"
| "strSet (Some s) = (s \<noteq> [])"

text \<open>\<^verbatim>\<open>!value || String(value).trim() === ''\<close>.\<close>

definition isBlank :: "jsval \<Rightarrow> bool" where
  "isBlank value = (\<not> truthy value \<or> trim (String value) = [])"

text \<open>
  The two result objects are insertion-ordered key-value lists; \<^verbatim>\<open>obj[k] = v\<close> is
  \<^const>\<open>AList.update\<close>.
\<close>

type_synonym errorMap = "(string \<times> string) list"
type_synonym valueMap = "(string \<times> jsval) list"

text \<open>One round of the loop of \<^verbatim>\<open>validateFields\<close>; each \<^verbatim>\<open>continue\<close> ends the round.\<close>

definition validateField ::
  "regexp \<Rightarrow> (string \<Rightarrow> jsval) \<Rightarrow> field \<Rightarrow> errorMap \<times> valueMap \<Rightarrow> errorMap \<times> valueMap" where
  "validateField re submittedData f acc =
     (case acc of (errors, validatedFields) \<Rightarrow>
      let value = submittedData (field_id f) in
      if required (validation f) \<and> (\<not> truthy value \<or> trim (String value) = [])
      then (AList.update (field_id f) (orElse (errorMessage f) (label f @ '' is required'')) errors,
            validatedFields)
      else if \<not> truthy value \<or> trim (String value) = []
      then (errors, validatedFields)
      else
        let stringValue = String value in
        if numSet (minLength (validation f))
           \<and> int (length stringValue) < the (minLength (validation f))
        then (AList.update (field_id f)
                (label f @ '' must be at least '' @ showInt (the (minLength (validation f)))
                   @ '' characters'') errors,
              validatedFields)
        else if numSet (maxLength (validation f))
           \<and> int (length stringValue) > the (maxLength (validation f))
        then (AList.update (field_id f)
                (label f @ '' must not exceed '' @ showInt (the (maxLength (validation f)))
                   @ '' characters'') errors,
              validatedFields)
        else if strSet (pattern (validation f))
           \<and> (case re (the (pattern (validation f))) of
                None \<Rightarrow> False
              | Some test \<Rightarrow> \<not> test stringValue)
        then (AList.update (field_id f)
                (orElse (errorMessage f) (label f @ '' format is invalid'')) errors,
              validatedFields)
        else
          (case validateByType f stringValue of
             Some typeValidationError \<Rightarrow>
               (AList.update (field_id f) typeValidationError errors, validatedFields)
           | None \<Rightarrow> (errors, AList.update (field_id f) value validatedFields)))"

record validationResult =
  isValid :: bool
  errors :: errorMap
  validatedFields :: valueMap

definition validateFields :: "regexp \<Rightarrow> field list \<Rightarrow> (string \<Rightarrow> jsval) \<Rightarrow> validationResult" where
  "validateFields re schemaFields submittedData =
     (case fold (validateField re submittedData) schemaFields ([], []) of
        (errs, vals) \<Rightarrow>
          \<lparr>isValid = (length (map fst errs) = 0), errors = errs, validatedFields = vals\<rparr>)"


subsection \<open>The rules of the specification, one function each\<close>

text \<open>
  The specification lists the checks of one field as rules tried in a fixed order, the
  first failure giving the field's message. Each rule is written here on its own, from
  the specification's wording, as a function from the field and the value to the message
  of its failure; \<open>fieldError\<close> tries them in the specification's order. None of them is
  defined through a function of the validation code above.
\<close>

text \<open>The value is missing or undefined, or is an empty string once trimmed.\<close>

definition missingOrEmpty :: "jsval \<Rightarrow> bool" where
  "missingOrEmpty v = (v = JUndefined \<or> trim (String v) = [])"

text \<open>The field's own message if it has one (an empty message is none), else the
  default.\<close>

definition specMessage :: "field \<Rightarrow> string \<Rightarrow> string" where
  "specMessage f d =
     (case errorMessage f of None \<Rightarrow> d | Some m \<Rightarrow> if m = [] then d else m)"

definition rule_required :: "field \<Rightarrow> jsval \<Rightarrow> string option" where
  "rule_required f v =
     (if required (validation f) \<and> missingOrEmpty v
      then Some (specMessage f (label f @ '' is required'')) else None)"

definition rule_minLength :: "field \<Rightarrow> jsval \<Rightarrow> string option" where
  "rule_minLength f v =
     (case minLength (validation f) of
        None \<Rightarrow> None
      | Some n \<Rightarrow>
          if n \<noteq> 0 \<and> int (length (String v)) < n
          then Some (label f @ '' must be at least '' @ showInt n @ '' characters'') else None)"

definition rule_maxLength :: "field \<Rightarrow> jsval \<Rightarrow> string option" where
  "rule_maxLength f v =
     (case maxLength (validation f) of
        None \<Rightarrow> None
      | Some n \<Rightarrow>
          if n \<noteq> 0 \<and> n < int (length (String v))
          then Some (label f @ '' must not exceed '' @ showInt n @ '' characters'') else None)"

definition rule_pattern :: "regexp \<Rightarrow> field \<Rightarrow> jsval \<Rightarrow> string option" where
  "rule_pattern re f v =
     (case pattern (validation f) of
        None \<Rightarrow> None
      | Some p \<Rightarrow>
          (case re p of
             None \<Rightarrow> None
           | Some test \<Rightarrow>
               if p \<noteq> [] \<and> \<not> test (String v)
               then Some (specMessage f (label f @ '' format is invalid'')) else None))"

text \<open>
  The type rules. An email has the shape \<open>local@domain.tld\<close>: three non-empty parts
  without white space or \<open>@\<close>, the first followed by \<open>@\<close> and the second by a dot. A
  phone number is 10 to 15 digits once white space, hyphens and parentheses are taken
  out. A number is a numeric literal, white space around it aside. A selected value is
  one of the options' values, and anything goes when there are no options.
\<close>

definition emailShape :: "string \<Rightarrow> bool" where
  "emailShape s =
     (\<exists>a b c. s = a @ ''@'' @ b @ ''.'' @ c \<and> a \<noteq> [] \<and> b \<noteq> [] \<and> c \<noteq> []
        \<and> (\<forall>x \<in> set (a @ b @ c). \<not> isWhiteSpace x \<and> x \<noteq> CHR ''@''))"

definition phoneShape :: "string \<Rightarrow> bool" where
  "phoneShape s =
     (let ds = filter (\<lambda>c. \<not> isWhiteSpace c \<and> c \<noteq> CHR ''-'' \<and> c \<noteq> CHR ''('' \<and> c \<noteq> CHR '')'') s
      in 10 \<le> length ds \<and> length ds \<le> 15 \<and> (\<forall>c \<in> set ds. isDigit c))"

definition numberShape :: "string \<Rightarrow> bool" where
  "numberShape s =
     (let t = dropWhile isWhiteSpace (rev (dropWhile isWhiteSpace (rev s)))
      in isStrUnsignedDecimalLiteral (dropSign t) \<or> isNonDecimalIntegerLiteral t)"

definition selectAllowed :: "selectOption list option \<Rightarrow> string \<Rightarrow> bool" where
  "selectAllowed opts s =
     (case opts of None \<Rightarrow> True | Some os \<Rightarrow> os = [] \<or> (\<exists>opt \<in> set os. opt_value opt = s))"

definition rule_type :: "field \<Rightarrow> jsval \<Rightarrow> string option" where
  "rule_type f v =
     (case field_type f of
        TEmail \<Rightarrow>
          if emailShape (String v) then None
          else Some (specMessage f ''Please enter a valid email address'')
      | TPhone \<Rightarrow>
          if phoneShape (String v) then None
          else Some (specMessage f ''Please enter a valid phone number'')
      | TNumber \<Rightarrow>
          if numberShape (String v) then None
          else Some (specMessage f ''Please enter a valid number'')
      | TSelect \<Rightarrow>
          if selectAllowed (options f) (String v) then None
          else Some (specMessage f ''Please select a valid option'')
      | _ \<Rightarrow> None)"

fun firstFailure ::
  "(field \<Rightarrow> jsval \<Rightarrow> string option) list \<Rightarrow> field \<Rightarrow> jsval \<Rightarrow> string option" where
  "firstFailure [] f v = None"
| "firstFailure (r # rs) f v = (case r f v of Some m \<Rightarrow> Some m | None \<Rightarrow> firstFailure rs f v)"

text \<open>A missing or empty value is only subject to the required rule.\<close>

definition applicableRules :: "regexp \<Rightarrow> jsval \<Rightarrow> (field \<Rightarrow> jsval \<Rightarrow> string option) list" where
  "applicableRules re v =
     (if missingOrEmpty v then [rule_required]
      else [rule_required, rule_minLength, rule_maxLength, rule_pattern re, rule_type])"

definition fieldError :: "regexp \<Rightarrow> field \<Rightarrow> jsval \<Rightarrow> string option" where
  "fieldError re f v = firstFailure (applicableRules re v) f v"

text \<open>What the specification has in \<open>errors\<close> and in \<open>validatedFields\<close> for one field:
  the message of its first failing rule, and its value when the value is present and no
  rule fails.\<close>

definition errorEntry :: "regexp \<Rightarrow> (string \<Rightarrow> jsval) \<Rightarrow> field \<Rightarrow> (string \<times> string) option" where
  "errorEntry re D f = map_option (Pair (field_id f)) (fieldError re f (D (field_id f)))"

definition valueEntry :: "regexp \<Rightarrow> (string \<Rightarrow> jsval) \<Rightarrow> field \<Rightarrow> (string \<times> jsval) option" where
  "valueEntry re D f =
     (if \<not> missingOrEmpty (D (field_id f)) \<and> fieldError re f (D (field_id f)) = None
      then Some (field_id f, D (field_id f)) else None)"

text \<open>The values that are neither missing nor empty and that \<^verbatim>\<open>!value\<close> holds of
  all the same.\<close>

definition falsyScalar :: "jsval \<Rightarrow> bool" where
  "falsyScalar v = (v = JNull \<or> v = JBool False \<or> v = JNum 0)"

text \<open>A length bound of 0 turned into an absent bound.\<close>

definition zeroAsAbsent :: "int option \<Rightarrow> int option" where
  "zeroAsAbsent b = (if b = Some 0 then None else b)"

definition withoutZeroBounds :: "field \<Rightarrow> field" where
  "withoutZeroBounds f =
     f\<lparr>validation := (validation f)\<lparr>minLength := zeroAsAbsent (minLength (validation f)),
                                     maxLength := zeroAsAbsent (maxLength (validation f))\<rparr>\<rparr>"

text \<open>A field with its pattern constraint removed.\<close>

definition withoutPattern :: "field \<Rightarrow> field" where
  "withoutPattern f = f\<lparr>validation := (validation f)\<lparr>pattern := None\<rparr>\<rparr>"

text \<open>A field with its pattern constraint removed when the pattern does not compile.\<close>

definition withoutUncompilable :: "regexp \<Rightarrow> field \<Rightarrow> field" where
  "withoutUncompilable re f =
     (case pattern (validation f) of
        None \<Rightarrow> f
      | Some p \<Rightarrow> (case re p of None \<Rightarrow> withoutPattern f | Some test \<Rightarrow> f))"

section \<open>Tenant connections (utils/tenantConnection.js)\<close>

text \<open>\<^verbatim>\<open>tenantId.toLowerCase().replace(/[^a-z0-9]/g, '')\<close>. No code unit from 128 to 255
  has an ASCII lower case, so only \<open>A\<close> to \<open>Z\<close> matter to the characters that are kept.\<close>

definition toLowerCase :: "string \<Rightarrow> string" where
  "toLowerCase s =
     map (\<lambda>c. case map_of (zip ''ABCDEFGHIJKLMNOPQRSTUVWXYZ'' ''abcdefghijklmnopqrstuvwxyz'') c of
                 Some l \<Rightarrow> l
               | None \<Rightarrow> c) s"

definition normalizedTenantId :: "string \<Rightarrow> string" where
  "normalizedTenantId tenantId =
     filter (\<lambda>c. c \<in> set ''abcdefghijklmnopqrstuvwxyz0123456789'') (toLowerCase tenantId)"

text \<open>\<^verbatim>\<open>s.split(sep)\<close> and \<^verbatim>\<open>parts.join(sep)\<close> for a separator of one character.\<close>

fun split :: "char \<Rightarrow> string \<Rightarrow> string list" where
  "split sep [] = [[]]"
| "split sep (c # cs) =
     (if c = sep then [] # split sep cs
      else (case split sep cs of [] \<Rightarrow> [[c]] | w # ws \<Rightarrow> (c # w) # ws))"

fun join :: "char \<Rightarrow> string list \<Rightarrow> string" where
  "join sep [] = []"
| "join sep [w] = w"
| "join sep (w # v # ws) = w @ [sep] @ join sep (v # ws)"

definition tenantDbName :: "string \<Rightarrow> string" where
  "tenantDbName normalizedId = ''tenant_'' @ normalizedId"

definition tenantUri :: "string \<Rightarrow> string \<Rightarrow> string" where
  "tenantUri baseUri normalizedId =
     (let uriParts = split CHR ''/'' baseUri;
          baseUriWithoutDb = join CHR ''/'' (butlast uriParts)
      in baseUriWithoutDb @ ''/'' @ tenantDbName normalizedId)"

text \<open>
  A connection object: its identity (the number of connections created before it), the
  URI it was created for, which names the tenant's database, and \<^verbatim>\<open>readyState\<close>
  (1 is connected, 2 is connecting).
\<close>

record connection =
  conn_id :: nat
  conn_uri :: string
  readyState :: nat

text \<open>A model is bound to the connection it was created on.\<close>

datatype userModel = RegisteredUser connection

text \<open>
  The module state: the two caches, keyed by normalized tenant id, and the number of
  \<^verbatim>\<open>mongoose.createConnection\<close> calls made so far.
\<close>

record tenantState =
  tenantConnections :: "string \<rightharpoonup> connection"
  tenantUserModels :: "string \<rightharpoonup> userModel"
  created :: nat

definition initialState :: tenantState where
  "initialState = \<lparr>tenantConnections = Map.empty, tenantUserModels = Map.empty, created = 0\<rparr>"

text \<open>What the awaited promise settles with: the \<^verbatim>\<open>open\<close> event or the \<^verbatim>\<open>error\<close> event.\<close>

datatype openEvent = OpenEvent | ErrorEvent string

text \<open>
  A call of \<^verbatim>\<open>getTenantConnection\<close> runs in two parts, divided by its \<^verbatim>\<open>await\<close>: up to
  \<^verbatim>\<open>createConnection\<close>, and from the settled promise on. Between the two the call is
  suspended and other calls run.
\<close>

datatype started = Returned "string + connection" | Awaiting string connection

definition connectFailed :: "string \<Rightarrow> string" where
  "connectFailed msg = ''Failed to connect to tenant database: '' @ msg"

text \<open>The cached connection of a key, when there is one and it is connected.\<close>

definition cachedConnection :: "tenantState \<Rightarrow> string \<Rightarrow> connection option" where
  "cachedConnection s normalizedId =
     (case tenantConnections s normalizedId of
        None \<Rightarrow> None
      | Some conn \<Rightarrow> if readyState conn = 1 then Some conn else None)"

text \<open>The first part. \<open>env\<close> is \<^verbatim>\<open>process.env.MONGODB_URI\<close>; without it
  \<^verbatim>\<open>baseUri.split\<close> throws inside the \<^verbatim>\<open>try\<close>.\<close>

definition connectionStart :: "string option \<Rightarrow> string \<Rightarrow> tenantState \<Rightarrow> started \<times> tenantState" where
  "connectionStart env tenantId s =
     (let normalizedId = normalizedTenantId tenantId
      in case cachedConnection s normalizedId of
           Some conn \<Rightarrow> (Returned (Inr conn), s)
         | None \<Rightarrow>
             (case env of
                None \<Rightarrow>
                  (Returned (Inl (connectFailed
                     ''Cannot read properties of undefined (reading 'split')'')), s)
              | Some baseUri \<Rightarrow>
                  (Awaiting normalizedId
                     \<lparr>conn_id = created s, conn_uri = tenantUri baseUri normalizedId,
                      readyState = 2\<rparr>,
                   s\<lparr>created := Suc (created s)\<rparr>)))"

text \<open>The second part: cache and return the connection, or rethrow.\<close>

definition connectionSettled ::
  "openEvent \<Rightarrow> string \<Rightarrow> connection \<Rightarrow> tenantState \<Rightarrow> (string + connection) \<times> tenantState" where
  "connectionSettled ev normalizedId conn s =
     (case ev of
        OpenEvent \<Rightarrow>
          (let opened = conn\<lparr>readyState := 1\<rparr>
           in (Inr opened,
               s\<lparr>tenantConnections := (tenantConnections s)(normalizedId \<mapsto> opened)\<rparr>))
      | ErrorEvent msg \<Rightarrow> (Inl (connectFailed msg), s))"

text \<open>One call run from start to end with nothing in between.\<close>

definition getTenantConnection ::
  "string option \<Rightarrow> openEvent \<Rightarrow> string \<Rightarrow> tenantState \<Rightarrow> (string + connection) \<times> tenantState" where
  "getTenantConnection env ev tenantId s =
     (case connectionStart env tenantId s of
        (Returned r, s') \<Rightarrow> (r, s')
      | (Awaiting normalizedId conn, s') \<Rightarrow> connectionSettled ev normalizedId conn s')"

text \<open>\<^verbatim>\<open>getUserModel\<close> of models/DynamicUser.js.\<close>

definition getUserModel ::
  "string option \<Rightarrow> openEvent \<Rightarrow> string \<Rightarrow> tenantState \<Rightarrow> (string + userModel) \<times> tenantState" where
  "getUserModel env ev tenantId s =
     (let normalizedId = normalizedTenantId tenantId
      in case tenantUserModels s normalizedId of
           Some model \<Rightarrow> (Inr model, s)
         | None \<Rightarrow>
             (case getTenantConnection env ev tenantId s of
                (Inl e, s') \<Rightarrow> (Inl e, s')
              | (Inr tenantConnection, s') \<Rightarrow>
                  (let model = RegisteredUser tenantConnection
                   in (Inr model,
                       s'\<lparr>tenantUserModels := (tenantUserModels s')(normalizedId \<mapsto> model)\<rparr>))))"

subsection \<open>Calls that overlap\<close>

text \<open>
  Request handlers run on one thread and give way at each \<^verbatim>\<open>await\<close>. A schedule is the
  order in which the calls get to run: each entry names a call and, when that call is
  suspended, the event its promise settles with.
\<close>

datatype call = NotStarted string | Suspended string connection | Finished "string + connection"

fun stepCall :: "string option \<Rightarrow> openEvent \<Rightarrow> call \<Rightarrow> tenantState \<Rightarrow> call \<times> tenantState" where
  "stepCall env ev (NotStarted tenantId) s =
     (case connectionStart env tenantId s of
        (Returned r, s') \<Rightarrow> (Finished r, s')
      | (Awaiting normalizedId conn, s') \<Rightarrow> (Suspended normalizedId conn, s'))"
| "stepCall env ev (Suspended normalizedId conn) s =
     (case connectionSettled ev normalizedId conn s of (r, s') \<Rightarrow> (Finished r, s'))"
| "stepCall env ev (Finished r) s = (Finished r, s)"

fun run ::
  "string option \<Rightarrow> (nat \<times> openEvent) list \<Rightarrow> call list \<times> tenantState \<Rightarrow> call list \<times> tenantState" where
  "run env [] cfg = cfg"
| "run env ((i, ev) # schedule) (calls, s) =
     (if i < length calls
      then (case stepCall env ev (calls ! i) s of
              (c, s') \<Rightarrow> run env schedule (calls[i := c], s'))
      else run env schedule (calls, s))"

text \<open>The open attempts in flight for a key: the suspended calls for it.\<close>

fun inFlightFor :: "string \<Rightarrow> call \<Rightarrow> bool" where
  "inFlightFor k (Suspended normalizedId conn) = (normalizedId = k)"
| "inFlightFor k c = False"

definition inFlight :: "string \<Rightarrow> call list \<Rightarrow> nat" where
  "inFlight k calls = length (filter (inFlightFor k) calls)"

text \<open>What a call has to satisfy to be a call for the key \<open>k\<close> under \<open>baseUri\<close>.\<close>

fun callFor :: "string \<Rightarrow> string \<Rightarrow> call \<Rightarrow> bool" where
  "callFor baseUri k (NotStarted tenantId) = (normalizedTenantId tenantId = k)"
| "callFor baseUri k (Suspended normalizedId conn) =
     (normalizedId = k \<and> conn_uri conn = tenantUri baseUri k)"
| "callFor baseUri k (Finished (Inr conn)) = (conn_uri conn = tenantUri baseUri k)"
| "callFor baseUri k (Finished (Inl e)) = True"

fun notStarted :: "call \<Rightarrow> bool" where
  "notStarted (NotStarted tenantId) = True"
| "notStarted c = False"

text \<open>Every cached connection is one to the database of its key.\<close>

definition cacheConsistent :: "string \<Rightarrow> tenantState \<Rightarrow> bool" where
  "cacheConsistent baseUri s =
     (\<forall>k conn. tenantConnections s k = Some conn \<longrightarrow> conn_uri conn = tenantUri baseUri k)"

definition modelsConsistent :: "string \<Rightarrow> tenantState \<Rightarrow> bool" where
  "modelsConsistent baseUri s =
     (\<forall>k conn. tenantUserModels s k = Some (RegisteredUser conn)
        \<longrightarrow> conn_uri conn = tenantUri baseUri k)"

text \<open>The invariant of a run for the key \<open>k\<close>: every call is a call for \<open>k\<close>, and what
  the cache holds for \<open>k\<close> is a connection to the database of \<open>k\<close>.\<close>

definition runInvariant :: "string \<Rightarrow> string \<Rightarrow> call list \<times> tenantState \<Rightarrow> bool" where
  "runInvariant b k cfg =
     ((\<forall>c \<in> set (fst cfg). callFor b k c)
      \<and> (\<forall>conn. tenantConnections (snd cfg) k = Some conn \<longrightarrow> conn_uri conn = tenantUri b k))"

text \<open>Connections created so far plus calls still to start: no step makes it larger.\<close>

definition openBudget :: "call list \<times> tenantState \<Rightarrow> nat" where
  "openBudget cfg = created (snd cfg) + length (filter notStarted (fst cfg))"

text \<open>The schedule on which each of \<open>n\<close> calls gets to run once, in the order of the
  calls: run on calls that have not started it takes each of them to its \<^verbatim>\<open>await\<close>, and
  run on calls that are suspended it settles each promise with the \<^verbatim>\<open>open\<close> event.\<close>

definition eachOnce :: "nat \<Rightarrow> (nat \<times> openEvent) list" where
  "eachOnce n = map (\<lambda>i. (i, OpenEvent)) [0..<n]"

text \<open>The connection that the call number \<open>i\<close> creates when \<open>i\<close> calls have created theirs
  before it.\<close>

definition nthConnection :: "string \<Rightarrow> string \<Rightarrow> tenantState \<Rightarrow> nat \<Rightarrow> nat \<Rightarrow> connection" where
  "nthConnection baseUri k s state i =
     \<lparr>conn_id = created s + i, conn_uri = tenantUri baseUri k, readyState = state\<rparr>"

text \<open>The base URI of the examples.\<close>

definition localUri :: string where
  "localUri = ''mongodb://localhost:27017/dynamic-registration''"


section \<open>Registered users (the routes of the tenant databases)\<close>

record registeredUser =
  user_id :: string
  user_tenantId :: string
  user_fields :: valueMap
  createdAt :: int

text \<open>The collection \<^verbatim>\<open>registeredusers\<close> of the database that a connection URI names.\<close>

type_synonym database = "string \<Rightarrow> registeredUser list"

text \<open>The numbers the list route computes with: \<^verbatim>\<open>parseInt\<close> gives an integer or NaN,
  and a division by 0 gives Infinity or NaN.\<close>

datatype jsnum = JsNaN | JsInt int | JsInfinity

definition digitValue :: "char \<Rightarrow> nat" where
  "digitValue c =
     (case map_of (zip ''0123456789abcdefABCDEF''
                       [0, 1, 2, 3, 4, 5, 6, 7, 8, 9, 10, 11, 12, 13, 14, 15, 10, 11, 12, 13, 14, 15]) c of
        Some d \<Rightarrow> d
      | None \<Rightarrow> 0)"

text \<open>
  \<^verbatim>\<open>parseInt(str)\<close> with no radix: leading white space and one sign are skipped, a prefix
  \<^verbatim>\<open>0x\<close> selects base 16, and the longest run of digits is the number; without a digit
  the result is NaN.
\<close>

definition parseInt :: "string \<Rightarrow> jsnum" where
  "parseInt str =
     (let S = trimStart str;
          negative = (take 1 S = ''-'');
          S1 = dropSign S;
          hex = (take 2 S1 = ''0x'' \<or> take 2 S1 = ''0X'');
          S2 = (if hex then drop 2 S1 else S1);
          R = (if hex then 16 else 10);
          Z = takeWhile (\<lambda>c. if hex then c \<in> set ''0123456789abcdefABCDEF'' else isDigit c) S2;
          mathInt = int (foldl (\<lambda>a c. a * R + digitValue c) 0 Z)
      in if Z = [] then JsNaN else JsInt (if negative then - mathInt else mathInt))"

text \<open>\<^verbatim>\<open>const { page = 1, limit = 10 } = req.query\<close> followed by \<^verbatim>\<open>parseInt\<close>: the default
  stands in for a parameter that is not there.\<close>

definition queryNumber :: "string option \<Rightarrow> int \<Rightarrow> jsnum" where
  "queryNumber q d = (case q of None \<Rightarrow> JsInt d | Some str \<Rightarrow> parseInt str)"

text \<open>\<^verbatim>\<open>(parseInt(page) - 1) * parseInt(limit)\<close>.\<close>

definition skipOf :: "jsnum \<Rightarrow> jsnum \<Rightarrow> jsnum" where
  "skipOf p l = (case (p, l) of (JsInt a, JsInt b) \<Rightarrow> JsInt ((a - 1) * b) | _ \<Rightarrow> JsNaN)"

text \<open>\<^verbatim>\<open>Math.ceil(totalUsers / parseInt(limit))\<close>.\<close>

definition totalPagesOf :: "nat \<Rightarrow> jsnum \<Rightarrow> jsnum" where
  "totalPagesOf totalCount l =
     (case l of
        JsInt b \<Rightarrow>
          if b = 0 then (if totalCount = 0 then JsNaN else JsInfinity)
          else JsInt (- ((- int totalCount) div b))
      | _ \<Rightarrow> JsNaN)"

text \<open>\<^verbatim>\<open>.sort({ createdAt: -1 })\<close>; the store leaves the order of equal times open.\<close>

definition sortNewestFirst :: "registeredUser list \<Rightarrow> registeredUser list" where
  "sortNewestFirst us = sort_key (\<lambda>u. - createdAt u) us"

definition matchingUsers :: "registeredUser list \<Rightarrow> string \<Rightarrow> registeredUser list" where
  "matchingUsers coll tenantId = filter (\<lambda>u. user_tenantId u = tenantId) coll"

text \<open>
  \<^verbatim>\<open>find({ tenantId }).skip(skip).limit(n).sort({ createdAt: -1 })\<close>: the store sorts, then
  skips, then limits. What the driver does with a skip or a limit that is not a count
  (NaN, a negative skip, a limit below 1) is not decided here: it is the parameter
  \<open>other\<close>.
\<close>

type_synonym otherwise = "jsnum \<Rightarrow> jsnum \<Rightarrow> registeredUser list \<Rightarrow> string + registeredUser list"

definition findPage ::
  "otherwise \<Rightarrow> registeredUser list \<Rightarrow> string \<Rightarrow> jsnum \<Rightarrow> jsnum \<Rightarrow> string + registeredUser list" where
  "findPage other coll tenantId skip n =
     (let ordered = sortNewestFirst (matchingUsers coll tenantId)
      in case (skip, n) of
           (JsInt sk, JsInt m) \<Rightarrow>
             if 0 \<le> sk \<and> 0 < m then Inr (take (nat m) (drop (nat sk) ordered))
             else other skip n ordered
         | _ \<Rightarrow> other skip n ordered)"

record pagination =
  currentPage :: jsnum
  totalPages :: jsnum
  totalUsers :: nat
  pageLimit :: jsnum

datatype usersBody =
  UsersData "registeredUser list" pagination string string
| UsersFailure string string

text \<open>\<^verbatim>\<open>router.get('/:tenantId/users')\<close>: status and body, and the module state after it.\<close>

definition listUsers ::
  "string option \<Rightarrow> openEvent \<Rightarrow> otherwise \<Rightarrow> database \<Rightarrow> string \<Rightarrow> string option \<Rightarrow> string option
     \<Rightarrow> tenantState \<Rightarrow> (nat \<times> usersBody) \<times> tenantState" where
  "listUsers env ev other db tenantId page limit s =
     (case getUserModel env ev tenantId s of
        (Inl e, s') \<Rightarrow> ((500, UsersFailure ''Error fetching registered users'' e), s')
      | (Inr (RegisteredUser conn), s') \<Rightarrow>
          (let skip = skipOf (queryNumber page 1) (queryNumber limit 10)
           in case findPage other (db (conn_uri conn)) tenantId skip (queryNumber limit 10) of
                Inl e \<Rightarrow> ((500, UsersFailure ''Error fetching registered users'' e), s')
              | Inr users \<Rightarrow>
                  (let totalCount = length (matchingUsers (db (conn_uri conn)) tenantId)
                   in ((200,
                        UsersData users
                          \<lparr>currentPage = queryNumber page 1,
                           totalPages = totalPagesOf totalCount (queryNumber limit 10),
                           totalUsers = totalCount,
                           pageLimit = queryNumber limit 10\<rparr>
                          (tenantDbName (normalizedTenantId tenantId)) ''registeredusers''),
                       s'))))"

text \<open>Twenty-five records of tenant \<open>xyz\<close>, created one after the other at times 1 to 25.\<close>

definition userAt :: "nat \<Rightarrow> registeredUser" where
  "userAt i = \<lparr>user_id = showNat i, user_tenantId = ''xyz'', user_fields = [], createdAt = int i\<rparr>"

definition twentyFiveUsers :: "registeredUser list" where
  "twentyFiveUsers = map userAt [1..<26]"

subsection \<open>One user by id\<close>

text \<open>
  Calling an \<^verbatim>\<open>async\<close> function gives a promise; only \<^verbatim>\<open>await\<close> gives the value it
  settles with. A variable of a handler holds one or the other.
\<close>

datatype modelRef = PromiseOf "(string + userModel) \<times> tenantState" | ModelOf userModel

text \<open>The 24 hexadecimal digits of an object id; \<^verbatim>\<open>findById\<close> rejects any other string.\<close>

definition isObjectId :: "string \<Rightarrow> bool" where
  "isObjectId userId =
     (length userId = 24 \<and> (\<forall>c \<in> set userId. c \<in> set ''0123456789abcdefABCDEF''))"

text \<open>\<^verbatim>\<open>UserModel.findById\<close>: a model has the method, a promise has no such property.\<close>

fun findByIdOf :: "database \<Rightarrow> modelRef \<Rightarrow> (string \<Rightarrow> string + registeredUser option) option" where
  "findByIdOf db (PromiseOf p) = None"
| "findByIdOf db (ModelOf (RegisteredUser conn)) =
     Some (\<lambda>userId. if isObjectId userId
                     then Inr (find (\<lambda>u. user_id u = userId) (db (conn_uri conn)))
                     else Inl ''Cast to ObjectId failed'')"

datatype userBody = UserData registeredUser | UserFailure string string

text \<open>\<^verbatim>\<open>router.get('/:tenantId/users/:userId')\<close>. Its first statement is
  \<^verbatim>\<open>const UserModel = getUserModel(tenantId)\<close>, with no \<^verbatim>\<open>await\<close>.\<close>

definition getUserById ::
  "string option \<Rightarrow> openEvent \<Rightarrow> database \<Rightarrow> string \<Rightarrow> string \<Rightarrow> tenantState \<Rightarrow> nat \<times> userBody" where
  "getUserById env ev db tenantId userId s =
     (let UserModel = PromiseOf (getUserModel env ev tenantId s)
      in case findByIdOf db UserModel of
           None \<Rightarrow> (500, UserFailure ''Error fetching user'' ''UserModel.findById is not a function'')
         | Some findById \<Rightarrow>
             (case findById userId of
                Inl e \<Rightarrow> (500, UserFailure ''Error fetching user'' e)
              | Inr None \<Rightarrow> (404, UserFailure ''User not found'' [])
              | Inr (Some user) \<Rightarrow> (200, UserData user)))"

text \<open>The same handler with the call awaited, as the list route does it.\<close>

definition getUserByIdAwaited ::
  "string option \<Rightarrow> openEvent \<Rightarrow> database \<Rightarrow> string \<Rightarrow> string \<Rightarrow> tenantState \<Rightarrow> nat \<times> userBody" where
  "getUserByIdAwaited env ev db tenantId userId s =
     (case fst (getUserModel env ev tenantId s) of
        Inl e \<Rightarrow> (500, UserFailure ''Error fetching user'' e)
      | Inr model \<Rightarrow>
          (case findByIdOf db (ModelOf model) of
             None \<Rightarrow> (500, UserFailure ''Error fetching user'' ''UserModel.findById is not a function'')
           | Some findById \<Rightarrow>
               (case findById userId of
                  Inl e \<Rightarrow> (500, UserFailure ''Error fetching user'' e)
                | Inr None \<Rightarrow> (404, UserFailure ''User not found'' [])
                | Inr (Some user) \<Rightarrow> (200, UserData user))))"

section \<open>Schema registry (the admin routes)\<close>


text \<open>
  An element of a submitted \<^verbatim>\<open>fields\<close> array, by the keys that the model
  (models/FieldSchema.js) declares and that validation reads; \<open>None\<close> is a key that the
  element does not have. The model declares \<^verbatim>\<open>placeholder\<close> as well, and the store gives
  each stored element an \<^verbatim>\<open>_id\<close>: neither is read by validation, and neither is modelled.
\<close>

record submittedField =
  sub_id :: string
  sub_label :: string
  sub_type :: "fieldType option"
  sub_options :: "selectOption list option"
  sub_required :: "bool option"
  sub_minLength :: "int option"
  sub_maxLength :: "int option"
  sub_pattern :: "string option"
  sub_errorMessage :: "string option"

text \<open>
  The element as the model stores it: a key that is not given takes the default the
  model declares for it (\<^verbatim>\<open>type\<close> \<^verbatim>\<open>'text'\<close>, \<^verbatim>\<open>options\<close> the empty array,
  \<^verbatim>\<open>validation.required\<close> \<^verbatim>\<open>false\<close>, the two bounds and the pattern \<^verbatim>\<open>null\<close>,
  \<^verbatim>\<open>errorMessage\<close> \<^verbatim>\<open>'This field is invalid'\<close>).
\<close>

definition castField :: "submittedField \<Rightarrow> field" where
  "castField e =
     \<lparr>field_id = sub_id e, label = sub_label e,
      field_type = (case sub_type e of None \<Rightarrow> TText | Some t \<Rightarrow> t),
      options = Some (case sub_options e of None \<Rightarrow> [] | Some os \<Rightarrow> os),
      validation =
        \<lparr>required = (case sub_required e of None \<Rightarrow> False | Some b \<Rightarrow> b),
         minLength = sub_minLength e, maxLength = sub_maxLength e, pattern = sub_pattern e\<rparr>,
      errorMessage =
        Some (case sub_errorMessage e of None \<Rightarrow> ''This field is invalid'' | Some m \<Rightarrow> m)\<rparr>"






section \<open>Example schemas and submissions\<close>

text \<open>A submitted object given by its entries; any other key reads as \<^verbatim>\<open>undefined\<close>.\<close>

definition submission :: "(string \<times> jsval) list \<Rightarrow> string \<Rightarrow> jsval" where
  "submission kvs k = (case map_of kvs k of None \<Rightarrow> JUndefined | Some v \<Rightarrow> v)"

definition nameField :: field where
  "nameField =
     \<lparr>field_id = ''name'', label = ''Full Name'', field_type = TText, options = Some [],
      validation = \<lparr>required = True, minLength = Some 2, maxLength = Some 50, pattern = None\<rparr>,
      errorMessage = Some ''Please enter your full name (2-50 characters)''\<rparr>"

definition emailField :: field where
  "emailField =
     \<lparr>field_id = ''email'', label = ''Email Address'', field_type = TEmail, options = Some [],
      validation = \<lparr>required = True, minLength = None, maxLength = None, pattern = None\<rparr>,
      errorMessage = Some ''Please enter a valid email address''\<rparr>"

definition ageField :: field where
  "ageField =
     \<lparr>field_id = ''age'', label = ''Age'', field_type = TNumber, options = Some [],
      validation = \<lparr>required = True, minLength = None, maxLength = None, pattern = None\<rparr>,
      errorMessage = None\<rparr>"

definition codeField :: field where
  "codeField =
     \<lparr>field_id = ''code'', label = ''Code'', field_type = TText, options = Some [],
      validation = \<lparr>required = False, minLength = None, maxLength = None, pattern = Some ''[''\<rparr>,
      errorMessage = None\<rparr>"

text \<open>An optional number field.\<close>

definition countField :: field where
  "countField =
     \<lparr>field_id = ''count'', label = ''Count'', field_type = TNumber, options = Some [],
      validation = \<lparr>required = False, minLength = None, maxLength = None, pattern = None\<rparr>,
      errorMessage = None\<rparr>"

definition nickField :: field where
  "nickField =
     \<lparr>field_id = ''nick'', label = ''Nickname'', field_type = TText, options = Some [],
      validation = \<lparr>required = False, minLength = Some 0, maxLength = Some 0, pattern = None\<rparr>,
      errorMessage = None\<rparr>"

definition planField :: field where
  "planField =
     \<lparr>field_id = ''plan'', label = ''Plan'', field_type = TSelect,
      options = Some [\<lparr>opt_label = ''X'', opt_value = ''x''\<rparr>, \<lparr>opt_label = ''Y'', opt_value = ''y''\<rparr>],
      validation = \<lparr>required = True, minLength = None, maxLength = None, pattern = None\<rparr>,
      errorMessage = None\<rparr>"


text \<open>
  A regular expression engine for the examples: it agrees with the runtime on the
  pattern sources it knows (\<^verbatim>\<open>[\<close> does not compile), and is used on no other.
\<close>

definition exampleRegExp :: regexp where
  "exampleRegExp p =
     (if p = ''^[0-9]+$'' then Some (\<lambda>s. s \<noteq> [] \<and> (\<forall>c \<in> set s. isDigit c))
      else if p = ''^a'' then Some (\<lambda>s. take 1 s = ''a'')
      else None)"

text \<open>A store in which the database of tenant \<open>xyz\<close> holds the twenty-five records, and
  one in which it holds a single record with an object id.\<close>

definition xyzUri :: string where
  "xyzUri = ''mongodb://localhost:27017/tenant_xyz''"

definition xyzDatabase :: database where
  "xyzDatabase uri = (if uri = xyzUri then twentyFiveUsers else [])"

definition storedUser :: registeredUser where
  "storedUser =
     \<lparr>user_id = ''507f1f77bcf86cd799439011'', user_tenantId = ''xyz'',
      user_fields = [(''name'', JStr ''Jo'')], createdAt = 1\<rparr>"

definition oneUserDatabase :: database where
  "oneUserDatabase uri = (if uri = xyzUri then [storedUser] else [])"

text \<open>Two behaviours of the driver on a skip or limit that is not a count: it answers
  with the whole sorted list, or it rejects the query.\<close>

definition lenientDriver :: otherwise where
  "lenientDriver skip n ordered = Inr ordered"

definition strictDriver :: otherwise where
  "strictDriver skip n ordered = Inl ''skip and limit must be non-negative integers''"




section \<open>The fixed expressions of the type checks\<close>

lemma in_butlast_split:
  assumes "x \<in> set (butlast ys)"
  shows "\<exists>u w. ys = u @ x # w \<and> w \<noteq> []"
proof -
  from assms have ne: "ys \<noteq> []" by auto
  from assms obtain u v where b: "butlast ys = u @ x # v"
    by (auto simp: in_set_conv_decomp)
  have "butlast ys @ [last ys] = ys"
    using ne by simp
  then have "(u @ x # v) @ [last ys] = ys"
    by (simp only: b)
  then have "u @ x # (v @ [last ys]) = ys"
    by simp
  then have "ys = u @ x # (v @ [last ys])"
    by (rule sym)
  then show ?thesis by blast
qed

lemma dropWhile_at:
  assumes "dropWhile (\<lambda>c. c \<noteq> x) s \<noteq> []"
  shows "\<exists>rest. dropWhile (\<lambda>c. c \<noteq> x) s = x # rest"
proof -
  have "\<not> hd (dropWhile (\<lambda>c. c \<noteq> x) s) \<noteq> x"
    by (rule hd_dropWhile [OF assms])
  then have "hd (dropWhile (\<lambda>c. c \<noteq> x) s) = x"
    by (rule notnotD)
  then show ?thesis
    using assms by (cases "dropWhile (\<lambda>c. c \<noteq> x) s") auto
qed

lemma email_parts:
  assumes "emailRegex_test s"
  shows "\<exists>a rest. s = a @ CHR ''@'' # rest \<and> a \<noteq> []
      \<and> (\<forall>c \<in> set a. \<not> isWhiteSpace c \<and> c \<noteq> CHR ''@'')
      \<and> (\<forall>c \<in> set rest. \<not> isWhiteSpace c \<and> c \<noteq> CHR ''@'')
      \<and> CHR ''.'' \<in> set (butlast (tl rest))"
proof -
  let ?P = "\<lambda>c. c \<noteq> CHR ''@''"
  have parts: "takeWhile ?P s \<noteq> [] \<and> dropWhile ?P s \<noteq> []
      \<and> (\<forall>c \<in> set (takeWhile ?P s). \<not> isWhiteSpace c)
      \<and> (\<forall>c \<in> set (tl (dropWhile ?P s)). \<not> isWhiteSpace c \<and> c \<noteq> CHR ''@'')
      \<and> CHR ''.'' \<in> set (butlast (tl (tl (dropWhile ?P s))))"
    using assms unfolding emailRegex_test_def Let_def .
  note a = parts [THEN conjunct1]
    and r = parts [THEN conjunct2, THEN conjunct1]
    and wa = parts [THEN conjunct2, THEN conjunct2, THEN conjunct1]
    and wr = parts [THEN conjunct2, THEN conjunct2, THEN conjunct2, THEN conjunct1]
    and dot = parts [THEN conjunct2, THEN conjunct2, THEN conjunct2, THEN conjunct2]
  obtain rest where rest: "dropWhile ?P s = CHR ''@'' # rest"
    using dropWhile_at [OF r] by (elim exE)
  have na: "\<forall>c \<in> set (takeWhile ?P s). c \<noteq> CHR ''@''"
    by (rule ballI) (erule set_takeWhileD [THEN conjunct2])
  have s: "s = takeWhile ?P s @ CHR ''@'' # rest"
    using takeWhile_dropWhile_id [of ?P s, symmetric] unfolding rest .
  have wr': "\<forall>c \<in> set rest. \<not> isWhiteSpace c \<and> c \<noteq> CHR ''@''"
    using wr unfolding rest list.sel .
  have dot': "CHR ''.'' \<in> set (butlast (tl rest))"
    using dot unfolding rest list.sel .
  have "\<forall>c \<in> set (takeWhile ?P s). \<not> isWhiteSpace c \<and> c \<noteq> CHR ''@''"
    using wa na by blast
  then show ?thesis
    using s a wr' dot' by blast
qed

lemma email_grammar_accepted:
  assumes ne: "a \<noteq> []" "b \<noteq> []" "c \<noteq> []"
    and ok: "\<forall>x \<in> set (a @ b @ c). \<not> isWhiteSpace x \<and> x \<noteq> CHR ''@''"
  shows "emailRegex_test (a @ ''@'' @ b @ ''.'' @ c)"
proof -
  have oka: "\<forall>x \<in> set a. x \<noteq> CHR ''@''"
    using ok by simp
  have tw: "takeWhile (\<lambda>c. c \<noteq> CHR ''@'') (a @ ''@'' @ b @ ''.'' @ c) = a"
    using oka by (simp add: takeWhile_append2)
  have dw: "dropWhile (\<lambda>c. c \<noteq> CHR ''@'') (a @ ''@'' @ b @ ''.'' @ c) = CHR ''@'' # b @ CHR ''.'' # c"
    using oka by (simp add: dropWhile_append2)
  obtain y b' where b: "b = y # b'"
    using ne(2) by (cases b) simp_all
  have "butlast (b' @ CHR ''.'' # c) = b' @ CHR ''.'' # butlast c"
    using ne(3) by (simp add: butlast_append)
  then have dot: "CHR ''.'' \<in> set (butlast (tl (tl (CHR ''@'' # b @ CHR ''.'' # c))))"
    by (simp add: b)
  have okb: "\<forall>x \<in> set (tl (CHR ''@'' # b @ CHR ''.'' # c)). \<not> isWhiteSpace x \<and> x \<noteq> CHR ''@''"
    using ok by (simp add: isWhiteSpace_def)
  have wa: "\<forall>x \<in> set a. \<not> isWhiteSpace x"
    using ok by simp
  show ?thesis
    unfolding emailRegex_test_def Let_def tw dw
    using ne(1) wa okb dot by blast
qed

lemma email_rest_split:
  assumes s: "s = a @ CHR ''@'' # rest"
    and t: "tl rest = u @ CHR ''.'' # w"
  shows "\<exists>x. s = a @ ''@'' @ (x # u) @ ''.'' @ w \<and> rest = x # u @ CHR ''.'' # w"
proof (cases rest)
  case Nil
  then show ?thesis using t by simp
next
  case (Cons x xs)
  then have "xs = u @ CHR ''.'' # w"
    using t by simp
  then show ?thesis
    using s Cons by simp
qed

lemma email_accepted_grammar:
  assumes "emailRegex_test s"
  shows "\<exists>a b c. s = a @ ''@'' @ b @ ''.'' @ c \<and> a \<noteq> [] \<and> b \<noteq> [] \<and> c \<noteq> []
        \<and> (\<forall>x \<in> set (a @ b @ c). \<not> isWhiteSpace x \<and> x \<noteq> CHR ''@'')"
proof -
  from email_parts [OF assms] obtain a rest where s: "s = a @ CHR ''@'' # rest"
    and a: "a \<noteq> []"
    and oka: "\<forall>c \<in> set a. \<not> isWhiteSpace c \<and> c \<noteq> CHR ''@''"
    and okr: "\<forall>c \<in> set rest. \<not> isWhiteSpace c \<and> c \<noteq> CHR ''@''"
    and dot: "CHR ''.'' \<in> set (butlast (tl rest))"
    by (elim exE conjE)
  from in_butlast_split [OF dot] obtain u w where t: "tl rest = u @ CHR ''.'' # w"
    and w: "w \<noteq> []"
    by (elim exE conjE)
  from email_rest_split [OF s t] obtain x where s': "s = a @ ''@'' @ (x # u) @ ''.'' @ w"
    and x: "rest = x # u @ CHR ''.'' # w"
    by (elim exE conjE)
  have "\<forall>c \<in> set (x # u @ CHR ''.'' # w). \<not> isWhiteSpace c \<and> c \<noteq> CHR ''@''"
    using okr unfolding x .
  then have "\<forall>c \<in> set ((x # u) @ w). \<not> isWhiteSpace c \<and> c \<noteq> CHR ''@''"
    by simp
  then have all: "\<forall>c \<in> set (a @ (x # u) @ w). \<not> isWhiteSpace c \<and> c \<noteq> CHR ''@''"
    using oka by (simp add: ball_Un)
  have xu: "x # u \<noteq> []"
    by simp
  have "s = a @ ''@'' @ (x # u) @ ''.'' @ w \<and> a \<noteq> [] \<and> x # u \<noteq> [] \<and> w \<noteq> []
        \<and> (\<forall>c \<in> set (a @ (x # u) @ w). \<not> isWhiteSpace c \<and> c \<noteq> CHR ''@'')"
    using s' a xu w all by (intro conjI)
  then show ?thesis
    by (intro exI)
qed

text \<open>The expression of the email check read as a grammar: a local part, \<open>@\<close>, a part
  before a dot and a part after it, all three non-empty and free of white space and
  \<open>@\<close>.\<close>

lemma emailRegex_test_iff:
  "emailRegex_test s \<longleftrightarrow>
     (\<exists>a b c. s = a @ ''@'' @ b @ ''.'' @ c \<and> a \<noteq> [] \<and> b \<noteq> [] \<and> c \<noteq> []
        \<and> (\<forall>x \<in> set (a @ b @ c). \<not> isWhiteSpace x \<and> x \<noteq> CHR ''@''))"
proof
  assume "emailRegex_test s"
  then show "\<exists>a b c. s = a @ ''@'' @ b @ ''.'' @ c \<and> a \<noteq> [] \<and> b \<noteq> [] \<and> c \<noteq> []
        \<and> (\<forall>x \<in> set (a @ b @ c). \<not> isWhiteSpace x \<and> x \<noteq> CHR ''@'')"
    by (rule email_accepted_grammar)
next
  assume "\<exists>a b c. s = a @ ''@'' @ b @ ''.'' @ c \<and> a \<noteq> [] \<and> b \<noteq> [] \<and> c \<noteq> []
        \<and> (\<forall>x \<in> set (a @ b @ c). \<not> isWhiteSpace x \<and> x \<noteq> CHR ''@'')"
  then obtain a b c where s: "s = a @ ''@'' @ b @ ''.'' @ c"
    and ne: "a \<noteq> []" "b \<noteq> []" "c \<noteq> []"
    and ok: "\<forall>x \<in> set (a @ b @ c). \<not> isWhiteSpace x \<and> x \<noteq> CHR ''@''"
    by (elim exE conjE)
  show "emailRegex_test s"
    unfolding s by (rule email_grammar_accepted [OF ne ok])
qed

section \<open>Shared validation: the code against the rules of the specification\<close>

lemma dropWhile_rev_nonempty:
  assumes "\<not> P x"
  shows "dropWhile P (rev (x # xs)) = rev (x # rev (dropWhile P (rev xs)))"
proof -
  have "dropWhile P (rev xs @ [x]) = dropWhile P (rev xs) @ [x]"
  proof (cases "\<forall>y \<in> set (rev xs). P y")
    case True
    then have "dropWhile P (rev xs) = []"
      by simp
    moreover have "dropWhile P (rev xs @ [x]) = dropWhile P [x]"
      using True by (intro dropWhile_append2) simp
    ultimately show ?thesis
      using assms by simp
  next
    case False
    then obtain y where "y \<in> set (rev xs)" "\<not> P y"
      by auto
    then show ?thesis
      by (rule dropWhile_append1)
  qed
  then show ?thesis
    by simp
qed

lemma all_dropWhile_Nil: "(\<forall>c \<in> set s. P c) \<Longrightarrow> dropWhile P s = []"
  by simp

lemma dropWhile_Nil_all: "dropWhile P s = [] \<Longrightarrow> (\<forall>c \<in> set s. P c)"
  by simp

lemma trim_empty_iff: "trim s = [] \<longleftrightarrow> (\<forall>c \<in> set s. isWhiteSpace c)"
proof
  assume "trim s = []"
  then have "dropWhile isWhiteSpace (rev (dropWhile isWhiteSpace s)) = []"
    unfolding trim_def trimStart_def by (simp only: rev_is_Nil_conv)
  then have "\<forall>c \<in> set (rev (dropWhile isWhiteSpace s)). isWhiteSpace c"
    by (rule dropWhile_Nil_all)
  then have a: "\<forall>c \<in> set (dropWhile isWhiteSpace s). isWhiteSpace c"
    by simp
  have "dropWhile isWhiteSpace s = []"
  proof (cases "dropWhile isWhiteSpace s")
    case Nil
    then show ?thesis .
  next
    case (Cons x m)
    then have "\<not> isWhiteSpace x"
      using hd_dropWhile [of isWhiteSpace s] by auto
    moreover have "isWhiteSpace x"
      using a unfolding Cons by simp
    ultimately show ?thesis
      by simp
  qed
  then show "\<forall>c \<in> set s. isWhiteSpace c"
    by (rule dropWhile_Nil_all)
next
  assume "\<forall>c \<in> set s. isWhiteSpace c"
  then have d: "dropWhile isWhiteSpace s = []"
    by (rule all_dropWhile_Nil)
  show "trim s = []"
    unfolding trim_def trimStart_def d by simp
qed

lemma trim_other_order:
  "dropWhile isWhiteSpace (rev (dropWhile isWhiteSpace (rev s))) = trim s"
proof (cases "dropWhile isWhiteSpace s")
  case Nil
  then have all: "\<forall>c \<in> set s. isWhiteSpace c"
    by (rule dropWhile_Nil_all)
  then have "\<forall>c \<in> set (rev s). isWhiteSpace c"
    by simp
  then have r: "dropWhile isWhiteSpace (rev s) = []"
    by (rule all_dropWhile_Nil)
  have "trim s = []"
    using all by (simp only: trim_empty_iff)
  then show ?thesis
    unfolding r by simp
next
  case (Cons x m)
  let ?l = "takeWhile isWhiteSpace s"
  let ?m = "rev (dropWhile isWhiteSpace (rev m))"
  have s: "s = ?l @ x # m"
    using takeWhile_dropWhile_id [of isWhiteSpace s] unfolding Cons by (rule sym)
  have nx: "\<not> isWhiteSpace x"
    using Cons hd_dropWhile [of isWhiteSpace s] by auto
  have m': "dropWhile isWhiteSpace (rev (x # m)) = rev (x # ?m)"
    using nx by (rule dropWhile_rev_nonempty [of isWhiteSpace x m])
  have l: "\<forall>c \<in> set ?l. isWhiteSpace c"
    by (auto dest: set_takeWhileD)
  have "x \<in> set (rev (x # m))"
    by simp
  then have "dropWhile isWhiteSpace (rev (x # m) @ rev ?l)
      = dropWhile isWhiteSpace (rev (x # m)) @ rev ?l"
    using nx by (rule dropWhile_append1)
  moreover have "rev s = rev (x # m) @ rev ?l"
    by (subst s) (simp only: rev_append)
  ultimately have "dropWhile isWhiteSpace (rev s) = rev (x # ?m) @ rev ?l"
    unfolding m' by (rule ssubst [where P = "\<lambda>z. dropWhile isWhiteSpace z = _", rotated])
  then have "rev (dropWhile isWhiteSpace (rev s)) = ?l @ (x # ?m)"
    by (simp only: rev_append rev_rev_ident)
  moreover have "dropWhile isWhiteSpace (?l @ (x # ?m)) = dropWhile isWhiteSpace (x # ?m)"
    using l by (intro dropWhile_append2) simp
  ultimately have lhs: "dropWhile isWhiteSpace (rev (dropWhile isWhiteSpace (rev s))) = x # ?m"
    using nx by simp
  have "trim s = rev (dropWhile isWhiteSpace (rev (x # m)))"
    unfolding trim_def trimStart_def Cons ..
  then show ?thesis
    unfolding lhs m' by simp
qed

lemma specMessage_orElse: "specMessage f d = orElse (errorMessage f) d"
  by (cases "errorMessage f") (simp_all add: specMessage_def)

lemma emailShape_iff: "emailShape s \<longleftrightarrow> emailRegex_test s"
  unfolding emailShape_def by (rule emailRegex_test_iff [symmetric])

lemma cleanPhone_filter:
  "cleanPhone s =
     filter (\<lambda>c. \<not> isWhiteSpace c \<and> c \<noteq> CHR ''-'' \<and> c \<noteq> CHR ''('' \<and> c \<noteq> CHR '')'') s"
  unfolding cleanPhone_def by (rule filter_cong) simp_all

lemma phoneShape_iff: "phoneShape s \<longleftrightarrow> phoneRegex_test (cleanPhone s)"
  by (simp only: phoneShape_def phoneRegex_test_def cleanPhone_filter Let_def)

lemma numberShape_iff: "trim s \<noteq> [] \<Longrightarrow> numberShape s \<longleftrightarrow> \<not> isNaN s"
  by (simp add: numberShape_def isNaN_def trim_other_order Let_def)

lemma selectAllowed_iff: "selectAllowed opts s \<longleftrightarrow> validateSelect s opts m = None"
  by (cases opts) (auto simp: selectAllowed_def validateSelect_def Let_def)

lemma rule_type_validateByType:
  assumes "trim (String v) \<noteq> []"
  shows "rule_type f v = validateByType f (String v)"
proof -
  have ne: "String v \<noteq> []"
    using assms by (auto simp: trim_def trimStart_def)
  show ?thesis
  proof (cases "field_type f")
    case TEmail
    then show ?thesis
      by (simp add: rule_type_def validateByType_def validateEmail_def emailShape_iff
            specMessage_orElse)
  next
    case TPhone
    then show ?thesis
      by (simp add: rule_type_def validateByType_def validatePhone_def phoneShape_iff
            specMessage_orElse Let_def)
  next
    case TNumber
    then show ?thesis
      using ne by (simp add: rule_type_def validateByType_def validateNumber_def
            numberShape_iff [OF assms] specMessage_orElse)
  next
    case TSelect
    have "selectAllowed (options f) (String v) \<longleftrightarrow>
        validateSelect (String v) (options f)
          (orElse (errorMessage f) ''Please select a valid option'') = None"
      by (rule selectAllowed_iff)
    moreover have "validateSelect (String v) (options f) m \<noteq> None \<Longrightarrow>
        validateSelect (String v) (options f) m = Some m" for m
      by (cases "options f") (auto simp: validateSelect_def Let_def split: if_splits)
    ultimately show ?thesis
      using TSelect
      by (cases "selectAllowed (options f) (String v)")
         (simp_all add: rule_type_def validateByType_def specMessage_orElse)
  qed (simp_all add: rule_type_def validateByType_def)
qed

lemma isBlank_cases:
  "isBlank v \<longleftrightarrow> missingOrEmpty v \<or> v = JNull \<or> v = JBool False \<or> v = JNum 0"
  by (cases v) (auto simp: isBlank_def missingOrEmpty_def trim_def trimStart_def)

lemma isBlank_missingOrEmpty: "isBlank v \<longleftrightarrow> missingOrEmpty v \<or> falsyScalar v"
  by (simp add: isBlank_cases falsyScalar_def)

lemma update_fresh: "k \<notin> fst ` set al \<Longrightarrow> AList.update k v al = al @ [(k, v)]"
  by (induction al) auto

text \<open>One round of the loop against the rules, on a value that is not one of the falsy
  scalars.\<close>

lemma validateField_rules:
  assumes "\<not> falsyScalar (D (field_id f))"
  shows "validateField re D f (es, vs) =
     (case fieldError re f (D (field_id f)) of
        Some m \<Rightarrow> (AList.update (field_id f) m es, vs)
      | None \<Rightarrow> if missingOrEmpty (D (field_id f)) then (es, vs)
                else (es, AList.update (field_id f) (D (field_id f)) vs))"
proof (cases "missingOrEmpty (D (field_id f))")
  case True
  then have "isBlank (D (field_id f))"
    by (simp add: isBlank_missingOrEmpty)
  then have b: "\<not> truthy (D (field_id f)) \<or> trim (String (D (field_id f))) = []"
    by (simp add: isBlank_def)
  show ?thesis
    using b True
    by (simp add: validateField_def fieldError_def applicableRules_def rule_required_def
          specMessage_orElse Let_def)
next
  case False
  then have "\<not> isBlank (D (field_id f))"
    using assms by (simp add: isBlank_missingOrEmpty)
  then have t: "truthy (D (field_id f))" and n: "trim (String (D (field_id f))) \<noteq> []"
    by (simp_all add: isBlank_def)
  have ty: "rule_type f (D (field_id f)) = validateByType f (String (D (field_id f)))"
    by (rule rule_type_validateByType [OF n])
  show ?thesis
    using t n False
    by (cases "minLength (validation f)"; cases "maxLength (validation f)";
        cases "pattern (validation f)")
       (auto simp: validateField_def fieldError_def applicableRules_def Let_def
          rule_required_def rule_minLength_def rule_maxLength_def rule_pattern_def ty
          specMessage_orElse split: option.splits)
qed

lemma fold_validateField:
  "distinct (map field_id S) \<Longrightarrow> \<forall>f \<in> set S. \<not> falsyScalar (D (field_id f)) \<Longrightarrow>
   field_id ` set S \<inter> fst ` set es = {} \<Longrightarrow>
   field_id ` set S \<inter> fst ` set vs = {} \<Longrightarrow>
   fold (validateField re D) S (es, vs) =
     (es @ List.map_filter (errorEntry re D) S, vs @ List.map_filter (valueEntry re D) S)"
proof (induction S arbitrary: es vs)
  case Nil
  then show ?case by simp
next
  case (Cons f S)
  have fresh_e: "field_id f \<notin> fst ` set es" and fresh_v: "field_id f \<notin> fst ` set vs"
    using Cons.prems by auto
  have rest: "distinct (map field_id S)" and notin: "field_id f \<notin> field_id ` set S"
    using Cons.prems by auto
  have nf: "\<not> falsyScalar (D (field_id f))" and nfs: "\<forall>f \<in> set S. \<not> falsyScalar (D (field_id f))"
    using Cons.prems by auto
  have eq: "validateField re D f (es, vs) =
     (case fieldError re f (D (field_id f)) of
        Some m \<Rightarrow> (AList.update (field_id f) m es, vs)
      | None \<Rightarrow> if missingOrEmpty (D (field_id f)) then (es, vs)
                else (es, AList.update (field_id f) (D (field_id f)) vs))" for es vs
    using nf by (rule validateField_rules [of D f re es vs])
  show ?case
  proof (cases "fieldError re f (D (field_id f))")
    case (Some m)
    have step: "validateField re D f (es, vs) = (es @ [(field_id f, m)], vs)"
      by (simp add: eq Some update_fresh [OF fresh_e])
    have "field_id ` set S \<inter> fst ` set (es @ [(field_id f, m)]) = {}"
      using Cons.prems notin by auto
    moreover have "field_id ` set S \<inter> fst ` set vs = {}"
      using Cons.prems by auto
    ultimately show ?thesis
      using Cons.IH [OF rest nfs, of "es @ [(field_id f, m)]" vs] Some
      by (simp add: step errorEntry_def valueEntry_def)
  next
    case None
    show ?thesis
    proof (cases "missingOrEmpty (D (field_id f))")
      case True
      have step: "validateField re D f (es, vs) = (es, vs)"
        by (simp add: eq None True)
      have "field_id ` set S \<inter> fst ` set es = {}" "field_id ` set S \<inter> fst ` set vs = {}"
        using Cons.prems by auto
      then show ?thesis
        using Cons.IH [OF rest nfs, of es vs] None True
        by (simp add: step errorEntry_def valueEntry_def)
    next
      case False
      have step: "validateField re D f (es, vs) = (es, vs @ [(field_id f, D (field_id f))])"
        by (simp add: eq None False update_fresh [OF fresh_v])
      have "field_id ` set S \<inter> fst ` set es = {}"
        "field_id ` set S \<inter> fst ` set (vs @ [(field_id f, D (field_id f))]) = {}"
        using Cons.prems notin by auto
      then show ?thesis
        using Cons.IH [OF rest nfs, of es "vs @ [(field_id f, D (field_id f))]"] None False
        by (simp add: step errorEntry_def valueEntry_def)
    qed
  qed
qed

lemma validateFields_isValid: "isValid (validateFields re S D) \<longleftrightarrow> errors (validateFields re S D) = []"
  by (simp add: validateFields_def split: prod.splits)

lemma validateFields_lists:
  assumes "distinct (map field_id S)" "\<forall>f \<in> set S. \<not> falsyScalar (D (field_id f))"
  shows "errors (validateFields re S D) = List.map_filter (errorEntry re D) S"
    and "validatedFields (validateFields re S D) = List.map_filter (valueEntry re D) S"
  using fold_validateField [OF assms, of "[]" "[]" re]
  by (simp_all add: validateFields_def)

lemma set_errorEntries:
  "(k, m) \<in> set (List.map_filter (errorEntry re D) S) \<longleftrightarrow>
     (\<exists>f \<in> set S. field_id f = k \<and> fieldError re f (D k) = Some m)"
  by (induction S) (auto simp: errorEntry_def split: option.splits)

lemma set_valueEntries:
  "(k, v) \<in> set (List.map_filter (valueEntry re D) S) \<longleftrightarrow>
     (\<exists>f \<in> set S. field_id f = k \<and> \<not> missingOrEmpty (D k)
        \<and> fieldError re f (D k) = None \<and> v = D k)"
  by (induction S) (auto simp: valueEntry_def split: if_splits)

lemma keys_errorEntries:
  "map fst (List.map_filter (errorEntry re D) S) =
     map field_id (filter (\<lambda>f. fieldError re f (D (field_id f)) \<noteq> None) S)"
  by (induction S) (auto simp: errorEntry_def)

lemma keys_valueEntries:
  "map fst (List.map_filter (valueEntry re D) S) =
     map field_id (filter (\<lambda>f. \<not> missingOrEmpty (D (field_id f))
        \<and> fieldError re f (D (field_id f)) = None) S)"
  by (induction S) (auto simp: valueEntry_def)

text \<open>
  Where no submitted value of a schema field is one of the falsy scalars \<^verbatim>\<open>null\<close>,
  \<^verbatim>\<open>false\<close> and \<^verbatim>\<open>0\<close>, and the field ids are distinct, the result is the one the rules
  give: \<open>errors\<close> has one entry per key and maps a key to a message exactly when the key is
  the id of a field whose first failing rule gives that message, and \<open>validatedFields\<close>
  maps a key to a value exactly when the key is the id of a field whose value is that
  value, is neither missing nor empty, and fails no rule.
\<close>

lemma validateFields_follows_rules:
  assumes "distinct (map field_id S)" "\<forall>f \<in> set S. \<not> falsyScalar (D (field_id f))"
  shows "distinct (map fst (errors (validateFields re S D)))
     \<and> (\<forall>k m. map_of (errors (validateFields re S D)) k = Some m \<longleftrightarrow>
           (\<exists>f \<in> set S. field_id f = k \<and> fieldError re f (D k) = Some m))
     \<and> (\<forall>k v. map_of (validatedFields (validateFields re S D)) k = Some v \<longleftrightarrow>
           (\<exists>f \<in> set S. field_id f = k \<and> \<not> missingOrEmpty (D k)
              \<and> fieldError re f (D k) = None \<and> v = D k))"
proof -
  let ?es = "List.map_filter (errorEntry re D) S"
  let ?vs = "List.map_filter (valueEntry re D) S"
  have de: "distinct (map fst ?es)"
    using assms(1) by (simp add: keys_errorEntries distinct_map_filter)
  have dv: "distinct (map fst ?vs)"
    using assms(1) by (simp add: keys_valueEntries distinct_map_filter)
  have "\<forall>k m. map_of ?es k = Some m \<longleftrightarrow>
           (\<exists>f \<in> set S. field_id f = k \<and> fieldError re f (D k) = Some m)"
    using map_of_eq_Some_iff [OF de] set_errorEntries by blast
  moreover have "\<forall>k v. map_of ?vs k = Some v \<longleftrightarrow>
           (\<exists>f \<in> set S. field_id f = k \<and> \<not> missingOrEmpty (D k)
              \<and> fieldError re f (D k) = None \<and> v = D k)"
    using map_of_eq_Some_iff [OF dv] set_valueEntries by blast
  ultimately show ?thesis
    using de validateFields_lists [OF assms, of re] by presburger
qed

text \<open>Without the ids being distinct the keys of the two results are still the ids of
  the failing fields and the ids of the fields that are present and pass.\<close>

lemma update_key_set: "fst ` set (AList.update k v al) = insert k (fst ` set al)"
  by (induction al) auto

lemma fold_validateField_keys:
  assumes "\<forall>f \<in> set S. \<not> falsyScalar (D (field_id f))"
    and "fold (validateField re D) S (es, vs) = (es', vs')"
  shows "fst ` set es' =
           fst ` set es \<union> field_id ` {f \<in> set S. fieldError re f (D (field_id f)) \<noteq> None}
     \<and> fst ` set vs' =
           fst ` set vs \<union> field_id ` {f \<in> set S. \<not> missingOrEmpty (D (field_id f))
                                          \<and> fieldError re f (D (field_id f)) = None}"
  using assms
proof (induction S arbitrary: es vs)
  case Nil
  then show ?case by simp
next
  case (Cons f S)
  have nf: "\<not> falsyScalar (D (field_id f))" and nfs: "\<forall>f \<in> set S. \<not> falsyScalar (D (field_id f))"
    using Cons.prems(1) by auto
  obtain es1 vs1 where st: "validateField re D f (es, vs) = (es1, vs1)"
    by (cases "validateField re D f (es, vs)")
  have eq: "(es1, vs1) =
     (case fieldError re f (D (field_id f)) of
        Some m \<Rightarrow> (AList.update (field_id f) m es, vs)
      | None \<Rightarrow> if missingOrEmpty (D (field_id f)) then (es, vs)
                else (es, AList.update (field_id f) (D (field_id f)) vs))"
    using nf st validateField_rules [of D f re es vs] by simp
  have e1: "fst ` set es1 = fst ` set es
      \<union> (if fieldError re f (D (field_id f)) \<noteq> None then {field_id f} else {})"
    using eq by (auto simp: update_key_set split: option.splits if_splits)
  have v1: "fst ` set vs1 = fst ` set vs
      \<union> (if \<not> missingOrEmpty (D (field_id f)) \<and> fieldError re f (D (field_id f)) = None
         then {field_id f} else {})"
    using eq by (auto simp: update_key_set split: option.splits if_splits)
  have rest: "fold (validateField re D) S (es1, vs1) = (es', vs')"
    using Cons.prems(2) st by simp
  have ih: "fst ` set es' = fst ` set es1
        \<union> field_id ` {f \<in> set S. fieldError re f (D (field_id f)) \<noteq> None}
     \<and> fst ` set vs' = fst ` set vs1
        \<union> field_id ` {f \<in> set S. \<not> missingOrEmpty (D (field_id f))
                                \<and> fieldError re f (D (field_id f)) = None}"
    by (rule Cons.IH [OF nfs rest])
  have a: "fst ` set es' =
           fst ` set es \<union> field_id ` {g \<in> set (f # S). fieldError re g (D (field_id g)) \<noteq> None}"
    unfolding ih [THEN conjunct1] e1 by auto
  have b: "fst ` set vs' =
           fst ` set vs \<union> field_id ` {g \<in> set (f # S). \<not> missingOrEmpty (D (field_id g))
                                          \<and> fieldError re g (D (field_id g)) = None}"
    unfolding ih [THEN conjunct2] v1 by auto
  show ?case
    using a b by (rule conjI)
qed

lemma validateFields_keys:
  assumes "\<forall>f \<in> set S. \<not> falsyScalar (D (field_id f))"
  shows "fst ` set (errors (validateFields re S D)) =
           field_id ` {f \<in> set S. fieldError re f (D (field_id f)) \<noteq> None}"
    and "fst ` set (validatedFields (validateFields re S D)) =
           field_id ` {f \<in> set S. \<not> missingOrEmpty (D (field_id f))
                                   \<and> fieldError re f (D (field_id f)) = None}"
proof -
  obtain es vs where f: "fold (validateField re D) S ([], []) = (es, vs)"
    by (cases "fold (validateField re D) S ([], [])")
  have r: "errors (validateFields re S D) = es" "validatedFields (validateFields re S D) = vs"
    by (simp_all add: validateFields_def f)
  note k = fold_validateField_keys [OF assms f]
  show "fst ` set (errors (validateFields re S D)) =
           field_id ` {f \<in> set S. fieldError re f (D (field_id f)) \<noteq> None}"
    unfolding r using k [THEN conjunct1] by simp
  show "fst ` set (validatedFields (validateFields re S D)) =
           field_id ` {f \<in> set S. \<not> missingOrEmpty (D (field_id f))
                                   \<and> fieldError re f (D (field_id f)) = None}"
    unfolding r using k [THEN conjunct2] by simp
qed

subsection \<open>The scenarios of the specification\<close>

lemmas ex_defs = submission_def nameField_def emailField_def ageField_def codeField_def nickField_def planField_def
  validateFields_def validateField_def Let_def isWhiteSpace_def trim_def trimStart_def
  validateByType_def validateEmail_def emailRegex_test_def validateNumber_def validateSelect_def
  isNaN_def showInt_def showNat.simps digitChar_def exampleRegExp_def

lemma scenario_A:
  "validateFields re [nameField, emailField] (submission [(''name'', JStr ''Jo''), (''email'', JStr ''bad'')])
   = \<lparr>isValid = False, errors = [(''email'', ''Please enter a valid email address'')],
      validatedFields = [(''name'', JStr ''Jo'')]\<rparr>"
  by (simp add: ex_defs)

lemma scenario_B:
  "validateFields re [nameField, emailField] (submission [(''name'', JStr ''''), (''email'', JStr ''a@b.com'')])
   = \<lparr>isValid = False, errors = [(''name'', ''Please enter your full name (2-50 characters)'')],
      validatedFields = [(''email'', JStr ''a@b.com'')]\<rparr>"
  by (simp add: ex_defs)

lemma scenario_C:
  "validateFields re [planField] (submission [(''plan'', JStr ''z'')])
   = \<lparr>isValid = False, errors = [(''plan'', ''Please select a valid option'')], validatedFields = []\<rparr>"
  "validateFields re [planField] (submission [(''plan'', JStr ''x'')])
   = \<lparr>isValid = True, errors = [], validatedFields = [(''plan'', JStr ''x'')]\<rparr>"
  by (simp_all add: ex_defs)

lemma zero_age_rejected:
  "validateFields re [ageField] (submission [(''age'', JNum 0)])
   = \<lparr>isValid = False, errors = [(''age'', ''Age is required'')], validatedFields = []\<rparr>"
  by (simp add: ex_defs)

lemma seven_age_accepted:
  "validateFields re [ageField] (submission [(''age'', JNum 7)])
   = \<lparr>isValid = True, errors = [], validatedFields = [(''age'', JNum 7)]\<rparr>"
  by (simp add: ex_defs isStrUnsignedDecimalLiteral_def dropSign_def isDigit_def)

lemma code_shared:
  "validateFields exampleRegExp [codeField] (submission [(''code'', JStr ''abc'')])
   = \<lparr>isValid = True, errors = [], validatedFields = [(''code'', JStr ''abc'')]\<rparr>"
  by (simp add: ex_defs)

lemma nick_accepted:
  "validateFields re [nickField] (submission [(''nick'', JStr ''a long nickname'')])
   = \<lparr>isValid = True, errors = [], validatedFields = [(''nick'', JStr ''a long nickname'')]\<rparr>"
  by (simp add: ex_defs)

lemmas rule_defs = fieldError_def applicableRules_def missingOrEmpty_def rule_required_def
  rule_minLength_def rule_maxLength_def rule_pattern_def rule_type_def specMessage_def
  numberShape_def selectAllowed_def

text \<open>The rules on the scenarios: the first failing rule of each field.\<close>

lemma scenario_rules:
  "fieldError re nameField (JStr ''Jo'') = None"
  "fieldError re nameField (JStr []) = Some ''Please enter your full name (2-50 characters)''"
  "fieldError re planField (JStr ''z'') = Some ''Please select a valid option''"
  "fieldError re planField (JStr ''x'') = None"
  by (simp_all add: rule_defs nameField_def planField_def trim_def trimStart_def
        isWhiteSpace_def)

text \<open>
  C1. \<open>isValid\<close> is true exactly when \<open>errors\<close> is empty, but \<open>validatedFields\<close> does
  not hold every field that was present and passed every applicable check. An optional
  number field submitted as the number 0 is present (it is neither missing nor empty),
  fails none of the rules, and so belongs to \<open>validatedFields\<close>; the code's test
  \<^verbatim>\<open>!value\<close> takes the 0 for an absent value and leaves the field out. Submitted as the
  string \<^verbatim>\<open>"0"\<close> the same field is kept.
\<close>

theorem optional_zero_is_left_out:
  "(isValid (validateFields re S D) \<longleftrightarrow> errors (validateFields re S D) = [])
   \<and> \<not> missingOrEmpty (JNum 0)
   \<and> fieldError re countField (JNum 0) = None
   \<and> valueEntry re (submission [(''count'', JNum 0)]) countField = Some (''count'', JNum 0)
   \<and> validateFields re [countField] (submission [(''count'', JNum 0)])
       = \<lparr>isValid = True, errors = [], validatedFields = []\<rparr>
   \<and> validateFields re [countField] (submission [(''count'', JStr ''0'')])
       = \<lparr>isValid = True, errors = [], validatedFields = [(''count'', JStr ''0'')]\<rparr>"
proof -
  have 1: "isValid (validateFields re S D) \<longleftrightarrow> errors (validateFields re S D) = []"
    by (simp add: validateFields_def split: prod.splits)
  have 2: "\<not> missingOrEmpty (JNum 0)"
    by (simp add: missingOrEmpty_def showInt_def showNat.simps digitChar_def trim_def
          trimStart_def isWhiteSpace_def)
  have 3: "fieldError re countField (JNum 0) = None"
    by (simp add: rule_defs countField_def showInt_def showNat.simps digitChar_def trim_def
          trimStart_def isWhiteSpace_def isStrUnsignedDecimalLiteral_def dropSign_def
          isDigit_def)
  have 4: "valueEntry re (submission [(''count'', JNum 0)]) countField = Some (''count'', JNum 0)"
    using 2 3 by (simp add: valueEntry_def submission_def countField_def)
  have 5: "validateFields re [countField] (submission [(''count'', JNum 0)])
       = \<lparr>isValid = True, errors = [], validatedFields = []\<rparr>"
    by (simp add: ex_defs countField_def)
  have 6: "validateFields re [countField] (submission [(''count'', JStr ''0'')])
       = \<lparr>isValid = True, errors = [], validatedFields = [(''count'', JStr ''0'')]\<rparr>"
    by (simp add: ex_defs countField_def isStrUnsignedDecimalLiteral_def dropSign_def
          isDigit_def)
  show ?thesis
    using 1 2 3 4 5 6 by simp
qed

section \<open>Shared validation: the required check\<close>

lemma required_check_message:
  "required (validation f) \<Longrightarrow> isBlank (D (field_id f)) \<Longrightarrow>
   validateField re D f (es, vs) =
     (AList.update (field_id f) (orElse (errorMessage f) (label f @ '' is required'')) es, vs)"
  by (simp add: validateField_def isBlank_def Let_def)

text \<open>
  C2. The required check is meant to fire exactly on a value that is missing, undefined or
  an empty string once trimmed. The code tests \<^verbatim>\<open>!value\<close> first, which is also true
  of the number 0 (and of \<^verbatim>\<open>false\<close> and \<^verbatim>\<open>null\<close>): a required number field submitted as 0
  is none of the three, and is still reported as required.
\<close>

theorem required_check_rejects_zero:
  "\<not> missingOrEmpty (JNum 0)
   \<and> validateFields re [ageField] (submission [(''age'', JNum 0)])
       = \<lparr>isValid = False, errors = [(''age'', ''Age is required'')], validatedFields = []\<rparr>
   \<and> validateFields re [ageField] (submission [(''age'', JStr ''0'')])
       = \<lparr>isValid = True, errors = [], validatedFields = [(''age'', JStr ''0'')]\<rparr>"
  by (simp add: ex_defs missingOrEmpty_def isStrUnsignedDecimalLiteral_def dropSign_def isDigit_def)

section \<open>Shared validation: a length bound of 0\<close>

lemma withoutZeroBounds_id:
  "minLength (validation f) \<noteq> Some 0 \<Longrightarrow> maxLength (validation f) \<noteq> Some 0 \<Longrightarrow>
   withoutZeroBounds f = f"
  by (simp add: withoutZeroBounds_def zeroAsAbsent_def)

lemma withoutZeroBounds_bounds:
  "minLength (validation (withoutZeroBounds f)) \<noteq> Some 0"
  "maxLength (validation (withoutZeroBounds f)) \<noteq> Some 0"
  by (simp_all add: withoutZeroBounds_def zeroAsAbsent_def)

lemma validateByType_validation:
  "validateByType (f\<lparr>validation := x\<rparr>) str = validateByType f str"
  by (cases "field_type f") (simp_all add: validateByType_def)

lemma validateField_withoutZeroBounds:
  "validateField re D (withoutZeroBounds f) = validateField re D f"
proof
  fix acc
  show "validateField re D (withoutZeroBounds f) acc = validateField re D f acc"
    by (cases acc; cases "minLength (validation f)"; cases "maxLength (validation f)")
       (auto simp: validateField_def withoutZeroBounds_def zeroAsAbsent_def Let_def
          validateByType_validation split: option.splits)
qed

text \<open>
  C10. A minLength or maxLength of 0 counts as no bound: validating against a schema gives
  the same result as validating against the schema in which every bound of 0 has been
  removed. So a field with maxLength 0 does not reject the values that are longer than 0.
\<close>

theorem zero_length_bound_is_absent:
  "validateFields re (map withoutZeroBounds S) D = validateFields re S D"
  by (simp add: validateFields_def fold_map comp_def validateField_withoutZeroBounds)

theorem zero_length_bound_is_absent_witness:
  "minLength (validation nickField) = Some 0 \<and> maxLength (validation nickField) = Some 0
   \<and> withoutZeroBounds nickField \<noteq> nickField
   \<and> validateFields exampleRegExp (map withoutZeroBounds [nickField])
        (submission [(''nick'', JStr ''a long nickname'')])
       = \<lparr>isValid = True, errors = [],
          validatedFields = [(''nick'', JStr ''a long nickname'')]\<rparr>"
proof -
  have "withoutZeroBounds nickField \<noteq> nickField"
    using withoutZeroBounds_bounds(1) [of nickField] by (auto simp: nickField_def)
  then show ?thesis
    using zero_length_bound_is_absent
      [of exampleRegExp "[nickField]" "submission [(''nick'', JStr ''a long nickname'')]"]
    by (simp add: nick_accepted) (simp add: nickField_def)
qed

section \<open>A pattern that does not compile\<close>

lemma validateField_uncompilable:
  assumes "pattern (validation f) = Some p" "re p = None"
  shows "validateField re D (withoutPattern f) acc = validateField re D f acc"
  using assms
  by (cases acc)
     (auto simp: validateField_def withoutPattern_def Let_def validateByType_validation
        split: option.splits)

text \<open>
  C3. A pattern that does not compile never fails the validation: \<open>validateFields\<close>
  returns a result, and it is the result for the schema in which the field has no
  pattern. The route that is mounted for registrations calls \<open>validateFields\<close>.
\<close>

theorem uncompilable_pattern_is_skipped:
  assumes "pattern (validation f) = Some p" "re p = None"
  shows "validateFields re (before @ f # after) D
       = validateFields re (before @ withoutPattern f # after) D"
proof -
  have "validateField re D (withoutPattern f) = validateField re D f"
    using assms by (intro ext validateField_uncompilable [of f p re])
  then show ?thesis
    by (simp add: validateFields_def)
qed

theorem uncompilable_pattern_is_skipped_witness:
  "pattern (validation codeField) = Some ''['' \<and> exampleRegExp ''['' = None
   \<and> pattern (validation (withoutPattern codeField)) = None
   \<and> validateFields exampleRegExp [nameField, codeField]
        (submission [(''name'', JStr ''Jo''), (''code'', JStr ''abc'')])
       = validateFields exampleRegExp [nameField, withoutPattern codeField]
           (submission [(''name'', JStr ''Jo''), (''code'', JStr ''abc'')])
   \<and> validateFields exampleRegExp [nameField, codeField]
        (submission [(''name'', JStr ''Jo''), (''code'', JStr ''abc'')])
       = \<lparr>isValid = True, errors = [],
          validatedFields = [(''name'', JStr ''Jo''), (''code'', JStr ''abc'')]\<rparr>"
proof -
  have p: "pattern (validation codeField) = Some ''[''"
    by (simp add: codeField_def)
  have e: "exampleRegExp ''['' = None"
    by (simp add: exampleRegExp_def)
  have n: "pattern (validation (withoutPattern codeField)) = None"
    by (simp add: withoutPattern_def)
  have r: "validateFields exampleRegExp [nameField, withoutPattern codeField]
        (submission [(''name'', JStr ''Jo''), (''code'', JStr ''abc'')])
       = \<lparr>isValid = True, errors = [],
          validatedFields = [(''name'', JStr ''Jo''), (''code'', JStr ''abc'')]\<rparr>"
    by (simp add: withoutPattern_def ex_defs)
  have "validateFields exampleRegExp ([nameField] @ codeField # [])
        (submission [(''name'', JStr ''Jo''), (''code'', JStr ''abc'')])
       = validateFields exampleRegExp ([nameField] @ withoutPattern codeField # [])
           (submission [(''name'', JStr ''Jo''), (''code'', JStr ''abc'')])"
    using p e by (rule uncompilable_pattern_is_skipped [of codeField "''[''" exampleRegExp])
  then show ?thesis
    using p e n r by simp
qed

lemma validateField_withoutUncompilable:
  "validateField re D (withoutUncompilable re f) = validateField re D f"
proof
  fix acc
  show "validateField re D (withoutUncompilable re f) acc = validateField re D f acc"
    by (auto simp: withoutUncompilable_def validateField_uncompilable split: option.splits)
qed

text \<open>The same for every such field of the schema at once.\<close>

lemma shared_validation_skips_uncompilable:
  "validateFields re (map (withoutUncompilable re) S) D = validateFields re S D"
  by (simp add: validateFields_def fold_map comp_def validateField_withoutUncompilable)

section \<open>Tenant connections: one namespace per normalized id\<close>

lemma tenantUri_inject: "tenantUri b n1 = tenantUri b n2 \<longleftrightarrow> n1 = n2"
  by (simp add: tenantUri_def tenantDbName_def Let_def)



lemma cachedConnection_Some:
  "cachedConnection s n = Some conn \<longleftrightarrow> tenantConnections s n = Some conn \<and> readyState conn = 1"
  by (auto simp: cachedConnection_def split: option.splits)

text \<open>What a successful call returns, and the state it leaves.\<close>

lemma getTenantConnection_Inr:
  assumes "getTenantConnection (Some b) ev t s = (Inr conn, s')"
  shows "(cachedConnection s (normalizedTenantId t) = Some conn \<and> s' = s)
       \<or> (cachedConnection s (normalizedTenantId t) = None \<and> ev = OpenEvent
          \<and> conn = \<lparr>conn_id = created s, conn_uri = tenantUri b (normalizedTenantId t), readyState = 1\<rparr>
          \<and> s' = s\<lparr>created := Suc (created s),
                   tenantConnections := (tenantConnections s)(normalizedTenantId t \<mapsto> conn)\<rparr>)"
  using assms
  by (cases ev; cases "cachedConnection s (normalizedTenantId t)")
     (auto simp: getTenantConnection_def connectionStart_def connectionSettled_def Let_def)


lemma getTenantConnection_uri:
  assumes "cacheConsistent b s" "getTenantConnection (Some b) ev t s = (Inr conn, s')"
  shows "conn_uri conn = tenantUri b (normalizedTenantId t)"
  using getTenantConnection_Inr [OF assms(2)] assms(1)
  by (auto simp: cacheConsistent_def cachedConnection_Some)

lemma getTenantConnection_consistent:
  assumes "cacheConsistent b s" "getTenantConnection (Some b) ev t s = (r, s')"
  shows "cacheConsistent b s'"
  using assms
  by (cases ev; cases "cachedConnection s (normalizedTenantId t)")
     (auto simp: getTenantConnection_def connectionStart_def connectionSettled_def Let_def
        cacheConsistent_def split: if_splits)



lemma normalized_examples:
  "normalizedTenantId ''Project-A'' = ''projecta''"
  "normalizedTenantId ''projecta'' = ''projecta''"
  "normalizedTenantId ''xyz'' = ''xyz''"
  by (simp_all add: normalizedTenantId_def toLowerCase_def)



text \<open>The same for the models that the routes use.\<close>

lemma getUserModel_Inr:
  assumes "getUserModel (Some b) ev t s = (Inr (RegisteredUser conn), s')"
  shows "tenantUserModels s' (normalizedTenantId t) = Some (RegisteredUser conn)"
    and "modelsConsistent b s \<Longrightarrow> cacheConsistent b s \<Longrightarrow>
         conn_uri conn = tenantUri b (normalizedTenantId t)
         \<and> modelsConsistent b s' \<and> cacheConsistent b s'"
proof -
  show "tenantUserModels s' (normalizedTenantId t) = Some (RegisteredUser conn)"
    using assms
    by (auto simp: getUserModel_def Let_def split: option.splits prod.splits sum.splits)
next
  assume m: "modelsConsistent b s" and c: "cacheConsistent b s"
  show "conn_uri conn = tenantUri b (normalizedTenantId t)
         \<and> modelsConsistent b s' \<and> cacheConsistent b s'"
  proof (cases "tenantUserModels s (normalizedTenantId t)")
    case (Some model)
    with assms m c show ?thesis
      by (auto simp: getUserModel_def Let_def modelsConsistent_def)
  next
    case None
    with assms obtain s1 where g: "getTenantConnection (Some b) ev t s = (Inr conn, s1)"
      and s': "s' = s1\<lparr>tenantUserModels := (tenantUserModels s1)(normalizedTenantId t \<mapsto> RegisteredUser conn)\<rparr>"
      by (auto simp: getUserModel_def Let_def split: prod.splits sum.splits)
    have u: "conn_uri conn = tenantUri b (normalizedTenantId t)"
      using getTenantConnection_uri [OF c g] .
    have c1: "cacheConsistent b s1"
      using getTenantConnection_consistent [OF c g] .
    have "tenantUserModels s1 = tenantUserModels s"
      using getTenantConnection_Inr [OF g] by auto
    with m have "modelsConsistent b s1"
      by (simp add: modelsConsistent_def)
    with u c1 s' show ?thesis
      by (auto simp: modelsConsistent_def cacheConsistent_def)
  qed
qed

lemma getUserModel_same_namespace_iff:
  assumes "cacheConsistent b s" "modelsConsistent b s"
    and "getUserModel (Some b) ev1 t1 s = (Inr (RegisteredUser c1), s1)"
    and "getUserModel (Some b) ev2 t2 s1 = (Inr (RegisteredUser c2), s2)"
  shows "(conn_uri c1 = conn_uri c2 \<longleftrightarrow> normalizedTenantId t1 = normalizedTenantId t2)
     \<and> (normalizedTenantId t1 = normalizedTenantId t2 \<longrightarrow> c2 = c1 \<and> s2 = s1)"
proof -
  have 1: "conn_uri c1 = tenantUri b (normalizedTenantId t1)
         \<and> modelsConsistent b s1 \<and> cacheConsistent b s1"
    using getUserModel_Inr(2) [OF assms(3) assms(2) assms(1)] .
  then have 2: "conn_uri c2 = tenantUri b (normalizedTenantId t2)"
    using getUserModel_Inr(2) [OF assms(4)] by blast
  have "c2 = c1 \<and> s2 = s1" if "normalizedTenantId t1 = normalizedTenantId t2"
    using getUserModel_Inr(1) [OF assms(3)] assms(4) that
    by (simp add: getUserModel_def)
  with 1 2 show ?thesis
    by (auto simp: tenantUri_inject)
qed

section \<open>Tenant connections: a failed open\<close>

text \<open>
  C6. When no connected connection is cached for the tenant and the open ends in an
  error, the call fails with the connection error, the cache of connections is what it
  was, and the next call for the same tenant id creates a new connection, which is cached
  and returned if it opens.
\<close>

theorem failed_open_is_not_cached:
  assumes "cachedConnection s (normalizedTenantId t) = None"
    and "getTenantConnection (Some b) (ErrorEvent msg) t s = (r, s')"
  shows "r = Inl (connectFailed msg)
     \<and> tenantConnections s' = tenantConnections s
     \<and> tenantUserModels s' = tenantUserModels s
     \<and> cachedConnection s' (normalizedTenantId t) = None
     \<and> created (snd (getTenantConnection (Some b) ev t s')) = Suc (created s')
     \<and> (\<exists>conn s''. getTenantConnection (Some b) OpenEvent t s' = (Inr conn, s'')
           \<and> conn_id conn = created s'
           \<and> tenantConnections s'' (normalizedTenantId t) = Some conn)"
proof -
  have s': "s' = s\<lparr>created := Suc (created s)\<rparr>" and r: "r = Inl (connectFailed msg)"
    using assms
    by (auto simp: getTenantConnection_def connectionStart_def connectionSettled_def Let_def)
  have n: "cachedConnection s' (normalizedTenantId t) = None"
    using assms(1) by (simp add: s' cachedConnection_def)
  have "created (snd (getTenantConnection (Some b) ev t s')) = Suc (created s')"
    using n
    by (cases ev)
       (simp_all add: getTenantConnection_def connectionStart_def connectionSettled_def Let_def)
  moreover have "\<exists>conn s''. getTenantConnection (Some b) OpenEvent t s' = (Inr conn, s'')
           \<and> conn_id conn = created s'
           \<and> tenantConnections s'' (normalizedTenantId t) = Some conn"
    using n
    by (simp add: getTenantConnection_def connectionStart_def connectionSettled_def Let_def)
  ultimately show ?thesis
    using r n by (simp add: s')
qed

theorem failed_open_is_not_cached_witness:
  "cachedConnection initialState (normalizedTenantId ''xyz'') = None
   \<and> getTenantConnection (Some localUri) (ErrorEvent ''timed out'') ''xyz'' initialState
       = (Inl ''Failed to connect to tenant database: timed out'', initialState\<lparr>created := 1\<rparr>)
   \<and> tenantConnections (initialState\<lparr>created := 1\<rparr>) = tenantConnections initialState
   \<and> created (snd (getTenantConnection (Some localUri) OpenEvent ''xyz''
        (initialState\<lparr>created := 1\<rparr>))) = 2"
proof -
  have n: "cachedConnection initialState (normalizedTenantId ''xyz'') = None"
    by (simp add: cachedConnection_def initialState_def)
  have g: "getTenantConnection (Some localUri) (ErrorEvent ''timed out'') ''xyz'' initialState
       = (Inl ''Failed to connect to tenant database: timed out'', initialState\<lparr>created := 1\<rparr>)"
    using n
    by (simp add: getTenantConnection_def connectionStart_def connectionSettled_def Let_def
          connectFailed_def initialState_def)
  show ?thesis
    using failed_open_is_not_cached [OF n g, of OpenEvent] n g by simp
qed

lemma failed_open_getUserModel:
  assumes "tenantUserModels s (normalizedTenantId t) = None"
    and "cachedConnection s (normalizedTenantId t) = None"
  shows "getUserModel (Some b) (ErrorEvent msg) t s
           = (Inl (connectFailed msg), s\<lparr>created := Suc (created s)\<rparr>)"
  using assms
  by (simp add: getUserModel_def getTenantConnection_def connectionStart_def
        connectionSettled_def Let_def)

lemma missing_uri_fails:
  "cachedConnection s (normalizedTenantId t) = None \<Longrightarrow>
   \<exists>e. getTenantConnection None ev t s = (Inl e, s)"
  by (simp add: getTenantConnection_def connectionStart_def Let_def)

section \<open>Tenant connections: calls that overlap\<close>

lemma connectionStart_hit:
  "cachedConnection s (normalizedTenantId t) = Some conn \<Longrightarrow>
   connectionStart env t s = (Returned (Inr conn), s)"
  by (simp add: connectionStart_def)

lemma connectionStart_miss:
  "cachedConnection s (normalizedTenantId t) = None \<Longrightarrow>
   connectionStart (Some b) t s =
     (Awaiting (normalizedTenantId t)
        \<lparr>conn_id = created s, conn_uri = tenantUri b (normalizedTenantId t), readyState = 2\<rparr>,
      s\<lparr>created := Suc (created s)\<rparr>)"
  by (simp add: connectionStart_def Let_def)

lemma stepCall_invariant:
  assumes "callFor b k c"
    and "\<forall>conn. tenantConnections s k = Some conn \<longrightarrow> conn_uri conn = tenantUri b k"
    and "stepCall (Some b) ev c s = (c', s')"
  shows "callFor b k c'
     \<and> (\<forall>conn. tenantConnections s' k = Some conn \<longrightarrow> conn_uri conn = tenantUri b k)"
proof (cases c)
  case (NotStarted t)
  then have k: "normalizedTenantId t = k"
    using assms(1) by simp
  show ?thesis
  proof (cases "cachedConnection s (normalizedTenantId t)")
    case None
    then have "c' = Suspended k \<lparr>conn_id = created s, conn_uri = tenantUri b k, readyState = 2\<rparr>"
      and "s' = s\<lparr>created := Suc (created s)\<rparr>"
      using assms(3) NotStarted k by (simp_all add: connectionStart_miss)
    then show ?thesis
      using assms(2) by simp
  next
    case (Some conn)
    then have "c' = Finished (Inr conn)" and "s' = s"
      using assms(3) NotStarted by (simp_all add: connectionStart_hit)
    moreover have "conn_uri conn = tenantUri b k"
      using Some assms(2) k by (simp add: cachedConnection_Some)
    ultimately show ?thesis
      using assms(2) by simp
  qed
next
  case (Suspended n conn)
  then have n: "n = k" and u: "conn_uri conn = tenantUri b k"
    using assms(1) by simp_all
  show ?thesis
  proof (cases ev)
    case OpenEvent
    then have "c' = Finished (Inr (conn\<lparr>readyState := 1\<rparr>))"
      and "s' = s\<lparr>tenantConnections := (tenantConnections s)(k \<mapsto> conn\<lparr>readyState := 1\<rparr>)\<rparr>"
      using assms(3) Suspended n by (simp_all add: connectionSettled_def Let_def)
    then show ?thesis
      using u by simp
  next
    case (ErrorEvent msg)
    then have "c' = Finished (Inl (connectFailed msg))" and "s' = s"
      using assms(3) Suspended by (simp_all add: connectionSettled_def)
    then show ?thesis
      using assms(2) by simp
  qed
next
  case (Finished r)
  then have "c' = c" and "s' = s"
    using assms(3) by simp_all
  then show ?thesis
    using assms(1,2) by simp
qed

lemma stepCall_budget:
  assumes "stepCall (Some b) ev c s = (c', s')"
  shows "created s' + (if notStarted c' then 1 else 0) \<le> created s + (if notStarted c then 1 else 0)"
proof (cases c)
  case (NotStarted t)
  show ?thesis
  proof (cases "cachedConnection s (normalizedTenantId t)")
    case None
    then show ?thesis
      using assms NotStarted by (auto simp: connectionStart_miss)
  next
    case (Some conn)
    then show ?thesis
      using assms NotStarted by (auto simp: connectionStart_hit)
  qed
next
  case (Suspended n conn)
  with assms show ?thesis
    by (cases ev) (auto simp: connectionSettled_def Let_def)
next
  case (Finished r)
  with assms show ?thesis by auto
qed

lemma filter_update_length:
  "i < length xs \<Longrightarrow>
   length (filter P (xs[i := y])) + (if P (xs ! i) then 1 else 0)
     = length (filter P xs) + (if P y then 1 else 0)"
proof (induction xs arbitrary: i)
  case Nil
  then show ?case by simp
next
  case (Cons x xs)
  then show ?case
    by (cases i) auto
qed

lemma step_keeps_invariant:
  assumes "runInvariant b k (calls, s)" "i < length calls"
    and "stepCall (Some b) ev (calls ! i) s = (c', s')"
  shows "runInvariant b k (calls[i := c'], s')"
proof -
  have all: "\<forall>c \<in> set calls. callFor b k c"
    and cache: "\<forall>conn. tenantConnections s k = Some conn \<longrightarrow> conn_uri conn = tenantUri b k"
    using assms(1) by (simp_all add: runInvariant_def)
  have ci: "callFor b k (calls ! i)"
    using all assms(2) by simp
  have new: "callFor b k c'
     \<and> (\<forall>conn. tenantConnections s' k = Some conn \<longrightarrow> conn_uri conn = tenantUri b k)"
    by (rule stepCall_invariant [OF ci cache assms(3)])
  have "callFor b k c" if "c \<in> set (calls[i := c'])" for c
  proof -
    have "c \<in> insert c' (set calls)"
      using that set_update_subset_insert [of calls i c'] by (rule subsetD [rotated])
    then show ?thesis
      using new all by (cases "c = c'") simp_all
  qed
  then show ?thesis
    using new by (simp add: runInvariant_def)
qed

lemma step_keeps_budget:
  assumes "i < length calls" "stepCall (Some b) ev (calls ! i) s = (c', s')"
  shows "openBudget (calls[i := c'], s') \<le> openBudget (calls, s)"
proof -
  have f: "length (filter notStarted (calls[i := c'])) + (if notStarted (calls ! i) then 1 else 0)
         = length (filter notStarted calls) + (if notStarted c' then 1 else 0)"
    by (rule filter_update_length [OF assms(1)])
  have g: "created s' + (if notStarted c' then 1 else 0)
         \<le> created s + (if notStarted (calls ! i) then 1 else 0)"
    by (rule stepCall_budget [OF assms(2)])
  show ?thesis
    unfolding openBudget_def fst_conv snd_conv
    using f g by (cases "notStarted c'"; cases "notStarted (calls ! i)") simp_all
qed

lemma run_length: "length (fst (run env schedule (calls, s))) = length calls"
proof (induction schedule arbitrary: calls s)
  case Nil
  then show ?case by simp
next
  case (Cons e schedule)
  then show ?case
    by (cases e) (simp split: prod.splits)
qed

lemma run_invariant:
  "runInvariant b k (calls, s) \<Longrightarrow> runInvariant b k (run (Some b) schedule (calls, s))"
proof (induction schedule arbitrary: calls s)
  case Nil
  then show ?case by simp
next
  case (Cons e schedule)
  obtain i ev where e: "e = (i, ev)" by (cases e)
  show ?case
  proof (cases "i < length calls")
    case True
    obtain c' s' where st: "stepCall (Some b) ev (calls ! i) s = (c', s')"
      by (cases "stepCall (Some b) ev (calls ! i) s")
    have "runInvariant b k (calls[i := c'], s')"
      using step_keeps_invariant [OF Cons.prems True st] .
    then show ?thesis
      using Cons.IH True st by (simp add: e)
  next
    case False
    then show ?thesis
      using Cons by (simp add: e)
  qed
qed

lemma run_budget:
  "openBudget (run (Some b) schedule (calls, s)) \<le> openBudget (calls, s)"
proof (induction schedule arbitrary: calls s)
  case Nil
  then show ?case by simp
next
  case (Cons e schedule)
  obtain i ev where e: "e = (i, ev)" by (cases e)
  show ?case
  proof (cases "i < length calls")
    case True
    obtain c' s' where st: "stepCall (Some b) ev (calls ! i) s = (c', s')"
      by (cases "stepCall (Some b) ev (calls ! i) s")
    have "openBudget (run (Some b) schedule (calls[i := c'], s')) \<le> openBudget (calls[i := c'], s')"
      by (rule Cons.IH)
    also have "\<dots> \<le> openBudget (calls, s)"
      by (rule step_keeps_budget [OF True st])
    finally show ?thesis
      using True st by (simp add: e)
  next
    case False
    then show ?thesis
      using Cons.IH by (simp add: e)
  qed
qed

lemma run_append:
  "run env (xs @ ys) cfg = run env ys (run env xs cfg)"
proof (induction xs arbitrary: cfg)
  case Nil
  then show ?case by simp
next
  case (Cons e xs)
  obtain i ev where e: "e = (i, ev)" by (cases e)
  obtain calls s where cfg: "cfg = (calls, s)" by (cases cfg)
  show ?case
    using Cons.IH by (simp add: e cfg split: prod.splits)
qed

lemma upt_shift: "map f [Suc a..<Suc b] = map (\<lambda>i. f (Suc i)) [a..<b]"
  by (simp add: map_Suc_upt [symmetric] del: upt_Suc)

text \<open>Every call on a miss creates a connection of its own: calls that start one after
  the other, none of them resumed, are all suspended, each on the open of a new
  connection.\<close>

lemma starts_on_a_miss:
  assumes "cachedConnection s k = None" "\<forall>t \<in> set ts. normalizedTenantId t = k"
  shows "run (Some b) (map (\<lambda>i. (length pre + i, OpenEvent)) [0..<length ts])
           (pre @ map NotStarted ts, s)
       = (pre @ map (\<lambda>i. Suspended k (nthConnection b k s 2 i)) [0..<length ts],
          s\<lparr>created := created s + length ts\<rparr>)"
  using assms
proof (induction ts arbitrary: pre s)
  case Nil
  then show ?case by simp
next
  case (Cons t ts)
  let ?c = "Suspended k (nthConnection b k s 2 0)"
  let ?s = "s\<lparr>created := Suc (created s)\<rparr>"
  have k: "normalizedTenantId t = k" and rest: "\<forall>t \<in> set ts. normalizedTenantId t = k"
    using Cons.prems(2) by simp_all
  have miss: "cachedConnection s (normalizedTenantId t) = None"
    using Cons.prems(1) k by simp
  have step: "stepCall (Some b) OpenEvent (NotStarted t) s = (?c, ?s)"
    by (simp add: connectionStart_miss [OF miss] k nthConnection_def)
  have miss': "cachedConnection ?s k = None"
    using Cons.prems(1) by (simp add: cachedConnection_def)
  have at: "(pre @ map NotStarted (t # ts)) ! length pre = NotStarted t"
    by simp
  have upd: "(pre @ map NotStarted (t # ts))[length pre := ?c] = (pre @ [?c]) @ map NotStarted ts"
    by simp
  have sched: "map (\<lambda>i. (length pre + i, OpenEvent)) [0..<length (t # ts)]
      = (length pre, OpenEvent) # map (\<lambda>i. (length (pre @ [?c]) + i, OpenEvent)) [0..<length ts]"
    by (simp add: upt_conv_Cons upt_shift del: upt_Suc)
  have ih: "run (Some b) (map (\<lambda>i. (length (pre @ [?c]) + i, OpenEvent)) [0..<length ts])
           ((pre @ [?c]) @ map NotStarted ts, ?s)
       = ((pre @ [?c]) @ map (\<lambda>i. Suspended k (nthConnection b k ?s 2 i)) [0..<length ts],
          ?s\<lparr>created := created ?s + length ts\<rparr>)"
    by (rule Cons.IH [OF miss' rest])
  have conns: "map (\<lambda>i. Suspended k (nthConnection b k s 2 i)) [0..<length (t # ts)]
      = ?c # map (\<lambda>i. Suspended k (nthConnection b k ?s 2 i)) [0..<length ts]"
    by (simp add: upt_conv_Cons upt_shift nthConnection_def del: upt_Suc)
  have "run (Some b) (map (\<lambda>i. (length pre + i, OpenEvent)) [0..<length (t # ts)])
           (pre @ map NotStarted (t # ts), s)
       = run (Some b) (map (\<lambda>i. (length (pre @ [?c]) + i, OpenEvent)) [0..<length ts])
           ((pre @ [?c]) @ map NotStarted ts, ?s)"
    unfolding sched using at upd step by simp
  also note ih
  finally show ?case
    unfolding conns by simp
qed

text \<open>Suspended calls that are resumed one after the other, each open succeeding: every
  call returns its own connection, and the cache ends with the last of them.\<close>

lemma settles_each:
  "run (Some b) (map (\<lambda>i. (length pre + i, OpenEvent)) [0..<length cs])
           (pre @ map (Suspended k) cs, s)
       = (pre @ map (\<lambda>c. Finished (Inr (c\<lparr>readyState := 1\<rparr>))) cs,
          if cs = [] then s
          else s\<lparr>tenantConnections := (tenantConnections s)(k \<mapsto> (last cs)\<lparr>readyState := 1\<rparr>)\<rparr>)"
proof (induction cs arbitrary: pre s)
  case Nil
  then show ?case by simp
next
  case (Cons c cs)
  let ?c = "Finished (Inr (c\<lparr>readyState := 1\<rparr>))"
  let ?s = "s\<lparr>tenantConnections := (tenantConnections s)(k \<mapsto> c\<lparr>readyState := 1\<rparr>)\<rparr>"
  have step: "stepCall (Some b) OpenEvent (Suspended k c) s = (?c, ?s)"
    by (simp add: connectionSettled_def Let_def)
  have at: "(pre @ map (Suspended k) (c # cs)) ! length pre = Suspended k c"
    by simp
  have upd: "(pre @ map (Suspended k) (c # cs))[length pre := ?c] = (pre @ [?c]) @ map (Suspended k) cs"
    by simp
  have sched: "map (\<lambda>i. (length pre + i, OpenEvent)) [0..<length (c # cs)]
      = (length pre, OpenEvent) # map (\<lambda>i. (length (pre @ [?c]) + i, OpenEvent)) [0..<length cs]"
    by (simp add: upt_conv_Cons upt_shift del: upt_Suc)
  have ih: "run (Some b) (map (\<lambda>i. (length (pre @ [?c]) + i, OpenEvent)) [0..<length cs])
           ((pre @ [?c]) @ map (Suspended k) cs, ?s)
       = ((pre @ [?c]) @ map (\<lambda>c. Finished (Inr (c\<lparr>readyState := 1\<rparr>))) cs,
          if cs = [] then ?s
          else ?s\<lparr>tenantConnections := (tenantConnections ?s)(k \<mapsto> (last cs)\<lparr>readyState := 1\<rparr>)\<rparr>)"
    by (rule Cons.IH)
  have "run (Some b) (map (\<lambda>i. (length pre + i, OpenEvent)) [0..<length (c # cs)])
           (pre @ map (Suspended k) (c # cs), s)
       = run (Some b) (map (\<lambda>i. (length (pre @ [?c]) + i, OpenEvent)) [0..<length cs])
           ((pre @ [?c]) @ map (Suspended k) cs, ?s)"
    unfolding sched using at upd step by simp
  also note ih
  finally show ?case
    by simp
qed

lemma inFlight_all_suspended: "inFlight k (map (\<lambda>i. Suspended k (g i)) xs) = length xs"
  by (induction xs) (simp_all add: inFlight_def)

text \<open>
  C5, as the code has it. There is no gate around the open: every call that starts while
  no connected connection is cached creates a connection of its own. For \<open>N\<close> calls for
  one uncached normalized key that all start before any of them is resumed, \<open>N\<close>
  connections are created and \<open>N\<close> opens are in flight at once; when the opens have
  succeeded each caller has its own connection, all of them to the database of that key.
  In whatever order the two parts of the calls run, no more than \<open>N\<close> connections are
  created, and every connection that is returned is one to the database of that key.
\<close>

theorem overlapping_calls_same_namespace:
  assumes "tenantConnections s k = None"
    and "\<forall>t \<in> set ts. normalizedTenantId t = k"
  shows "run (Some b) (eachOnce (length ts)) (map NotStarted ts, s)
         = (map (\<lambda>i. Suspended k (nthConnection b k s 2 i)) [0..<length ts],
            s\<lparr>created := created s + length ts\<rparr>)
     \<and> inFlight k (fst (run (Some b) (eachOnce (length ts)) (map NotStarted ts, s))) = length ts
     \<and> fst (run (Some b) (eachOnce (length ts) @ eachOnce (length ts)) (map NotStarted ts, s))
         = map (\<lambda>i. Finished (Inr (nthConnection b k s 1 i))) [0..<length ts]
     \<and> created (snd (run (Some b) (eachOnce (length ts) @ eachOnce (length ts))
            (map NotStarted ts, s))) = created s + length ts
     \<and> created (snd (run (Some b) schedule (map NotStarted ts, s))) \<le> created s + length ts
     \<and> (\<forall>conn. Finished (Inr conn) \<in> set (fst (run (Some b) schedule (map NotStarted ts, s)))
           \<longrightarrow> conn_uri conn = tenantUri b k)"
proof -
  let ?N = "length ts"
  let ?cs = "map (nthConnection b k s 2) [0..<?N]"
  have miss: "cachedConnection s k = None"
    using assms(1) by (simp add: cachedConnection_def)
  have "run (Some b) (map (\<lambda>i. (length ([] :: call list) + i, OpenEvent)) [0..<?N])
           ([] @ map NotStarted ts, s)
       = ([] @ map (\<lambda>i. Suspended k (nthConnection b k s 2 i)) [0..<?N],
          s\<lparr>created := created s + ?N\<rparr>)"
    by (rule starts_on_a_miss [OF miss assms(2)])
  then have started: "run (Some b) (eachOnce ?N) (map NotStarted ts, s)
       = (map (\<lambda>i. Suspended k (nthConnection b k s 2 i)) [0..<?N],
          s\<lparr>created := created s + ?N\<rparr>)"
    by (simp add: eachOnce_def)
  have c2: "inFlight k (fst (run (Some b) (eachOnce ?N) (map NotStarted ts, s))) = ?N"
    unfolding started fst_conv by (simp add: inFlight_all_suspended)
  have susp: "map (\<lambda>i. Suspended k (nthConnection b k s 2 i)) [0..<?N] = map (Suspended k) ?cs"
    by simp
  have len: "length ?cs = ?N"
    by simp
  have "run (Some b) (map (\<lambda>i. (length ([] :: call list) + i, OpenEvent)) [0..<length ?cs])
           ([] @ map (Suspended k) ?cs, s\<lparr>created := created s + ?N\<rparr>)
       = ([] @ map (\<lambda>c. Finished (Inr (c\<lparr>readyState := 1\<rparr>))) ?cs,
          if ?cs = [] then s\<lparr>created := created s + ?N\<rparr>
          else (s\<lparr>created := created s + ?N\<rparr>)\<lparr>tenantConnections :=
                 (tenantConnections (s\<lparr>created := created s + ?N\<rparr>))
                   (k \<mapsto> (last ?cs)\<lparr>readyState := 1\<rparr>)\<rparr>)"
    by (rule settles_each)
  then have settled: "run (Some b) (eachOnce ?N) (map (Suspended k) ?cs, s\<lparr>created := created s + ?N\<rparr>)
       = (map (\<lambda>c. Finished (Inr (c\<lparr>readyState := 1\<rparr>))) ?cs,
          if ?cs = [] then s\<lparr>created := created s + ?N\<rparr>
          else (s\<lparr>created := created s + ?N\<rparr>)\<lparr>tenantConnections :=
                 (tenantConnections (s\<lparr>created := created s + ?N\<rparr>))
                   (k \<mapsto> (last ?cs)\<lparr>readyState := 1\<rparr>)\<rparr>)"
    unfolding len by (simp add: eachOnce_def)
  have both: "run (Some b) (eachOnce ?N @ eachOnce ?N) (map NotStarted ts, s)
      = run (Some b) (eachOnce ?N) (map (Suspended k) ?cs, s\<lparr>created := created s + ?N\<rparr>)"
    unfolding run_append started susp ..
  have c3: "fst (run (Some b) (eachOnce ?N @ eachOnce ?N) (map NotStarted ts, s))
       = map (\<lambda>i. Finished (Inr (nthConnection b k s 1 i))) [0..<?N]"
    unfolding both settled fst_conv by (simp add: nthConnection_def)
  have c4: "created (snd (run (Some b) (eachOnce ?N @ eachOnce ?N) (map NotStarted ts, s)))
      = created s + ?N"
    unfolding both settled snd_conv by simp
  have inv0: "runInvariant b k (map NotStarted ts, s)"
    using assms by (auto simp: runInvariant_def)
  have inv: "runInvariant b k (run (Some b) schedule (map NotStarted ts, s))"
    by (rule run_invariant [OF inv0])
  have "\<forall>c \<in> set (map NotStarted ts). notStarted c"
    by simp
  then have "filter notStarted (map NotStarted ts) = map NotStarted ts"
    by (simp only: filter_True)
  then have b0: "openBudget (map NotStarted ts, s) = created s + ?N"
    by (simp add: openBudget_def)
  have "openBudget (run (Some b) schedule (map NotStarted ts, s)) \<le> openBudget (map NotStarted ts, s)"
    by (rule run_budget)
  then have c5: "created (snd (run (Some b) schedule (map NotStarted ts, s))) \<le> created s + ?N"
    using b0 by (simp add: openBudget_def)
  have c6: "\<forall>conn. Finished (Inr conn) \<in> set (fst (run (Some b) schedule (map NotStarted ts, s)))
           \<longrightarrow> conn_uri conn = tenantUri b k"
    using inv by (auto simp: runInvariant_def)
  show ?thesis
    using started c2 c3 c4 c5 c6 by (intro conjI)
qed

text \<open>Two calls for \<open>xyz\<close> that both start before either connection has opened.\<close>

lemma two_calls_started:
  "run (Some localUri) [(0, OpenEvent), (1, OpenEvent)]
     ([NotStarted ''xyz'', NotStarted ''xyz''], initialState)
   = ([Suspended ''xyz'' \<lparr>conn_id = 0, conn_uri = ''mongodb://localhost:27017/tenant_xyz'', readyState = 2\<rparr>,
       Suspended ''xyz'' \<lparr>conn_id = 1, conn_uri = ''mongodb://localhost:27017/tenant_xyz'', readyState = 2\<rparr>],
      initialState\<lparr>created := 2\<rparr>)"
  by (simp add: connectionStart_def cachedConnection_def initialState_def normalized_examples
        tenantUri_def tenantDbName_def localUri_def Let_def)

lemma two_calls_finished:
  "run (Some localUri) [(0, OpenEvent), (1, OpenEvent), (0, OpenEvent), (1, OpenEvent)]
     ([NotStarted ''xyz'', NotStarted ''xyz''], initialState)
   = ([Finished (Inr \<lparr>conn_id = 0, conn_uri = ''mongodb://localhost:27017/tenant_xyz'', readyState = 1\<rparr>),
       Finished (Inr \<lparr>conn_id = 1, conn_uri = ''mongodb://localhost:27017/tenant_xyz'', readyState = 1\<rparr>)],
      initialState\<lparr>created := 2,
        tenantConnections := [''xyz'' \<mapsto>
          \<lparr>conn_id = 1, conn_uri = ''mongodb://localhost:27017/tenant_xyz'', readyState = 1\<rparr>]\<rparr>)"
  by (simp add: connectionStart_def connectionSettled_def cachedConnection_def initialState_def
        normalized_examples tenantUri_def tenantDbName_def localUri_def Let_def)

text \<open>
  C5. The claim has at most one open in flight for a normalized key and exactly one open
  sequence for any number of concurrent calls. Two calls for \<open>xyz\<close> on an empty cache
  that both start before either connection has opened are both suspended on an open of
  their own, and two connections have been created when both have returned.
\<close>

theorem overlapping_calls_open_twice:
  "tenantConnections initialState ''xyz'' = None
   \<and> inFlight ''xyz'' (fst (run (Some localUri) [(0, OpenEvent), (1, OpenEvent)]
        ([NotStarted ''xyz'', NotStarted ''xyz''], initialState))) = 2
   \<and> created (snd (run (Some localUri)
        [(0, OpenEvent), (1, OpenEvent), (0, OpenEvent), (1, OpenEvent)]
        ([NotStarted ''xyz'', NotStarted ''xyz''], initialState))) = 2"
  unfolding two_calls_started two_calls_finished
  by (simp add: inFlight_def initialState_def)

lemma alias_normalized: "normalizedTenantId ''X-Y-Z'' = ''xyz''"
  by (simp add: normalizedTenantId_def toLowerCase_def)

theorem overlapping_calls_same_namespace_witness:
  "tenantConnections initialState ''xyz'' = None
   \<and> normalizedTenantId ''xyz'' = ''xyz'' \<and> normalizedTenantId ''X-Y-Z'' = ''xyz''
   \<and> inFlight ''xyz'' (fst (run (Some localUri) (eachOnce 2)
         (map NotStarted [''xyz'', ''X-Y-Z''], initialState))) = 2
   \<and> fst (run (Some localUri) (eachOnce 2 @ eachOnce 2)
         (map NotStarted [''xyz'', ''X-Y-Z''], initialState))
       = [Finished (Inr \<lparr>conn_id = 0, conn_uri = tenantUri localUri ''xyz'', readyState = 1\<rparr>),
          Finished (Inr \<lparr>conn_id = 1, conn_uri = tenantUri localUri ''xyz'', readyState = 1\<rparr>)]
   \<and> created (snd (run (Some localUri) (eachOnce 2 @ eachOnce 2)
         (map NotStarted [''xyz'', ''X-Y-Z''], initialState))) = 2"
proof -
  have a: "tenantConnections initialState ''xyz'' = None"
    by (simp add: initialState_def)
  have n: "\<forall>t \<in> set [''xyz'', ''X-Y-Z'']. normalizedTenantId t = ''xyz''"
    by (simp add: normalized_examples alias_normalized)
  have len: "length [''xyz'', ''X-Y-Z''] = 2"
    by simp
  have c: "created initialState = 0"
    by (simp add: initialState_def)
  note t = overlapping_calls_same_namespace [OF a n, of localUri "[]", unfolded len]
  have 2: "inFlight ''xyz'' (fst (run (Some localUri) (eachOnce 2)
         (map NotStarted [''xyz'', ''X-Y-Z''], initialState))) = 2"
    by (rule t [THEN conjunct2, THEN conjunct1])
  have 3: "fst (run (Some localUri) (eachOnce 2 @ eachOnce 2)
         (map NotStarted [''xyz'', ''X-Y-Z''], initialState))
       = map (\<lambda>i. Finished (Inr (nthConnection localUri ''xyz'' initialState 1 i))) [0..<2]"
    by (rule t [THEN conjunct2, THEN conjunct2, THEN conjunct1])
  have 4: "created (snd (run (Some localUri) (eachOnce 2 @ eachOnce 2)
         (map NotStarted [''xyz'', ''X-Y-Z''], initialState))) = created initialState + 2"
    by (rule t [THEN conjunct2, THEN conjunct2, THEN conjunct2, THEN conjunct1])
  have m: "map (\<lambda>i. Finished (Inr (nthConnection localUri ''xyz'' initialState 1 i))) [0..<2]
       = [Finished (Inr \<lparr>conn_id = 0, conn_uri = tenantUri localUri ''xyz'', readyState = 1\<rparr>),
          Finished (Inr \<lparr>conn_id = 1, conn_uri = tenantUri localUri ''xyz'', readyState = 1\<rparr>)]"
  proof -
    have "[0..<2] = [0, Suc 0]"
      by (simp add: upt_rec numeral_2_eq_2)
    then show ?thesis
      by (simp add: nthConnection_def c)
  qed
  show ?thesis
    unfolding 2 3 4 m c using a n by simp
qed

section \<open>Listing the registered users of a tenant\<close>

lemma totalPagesOf_ceiling:
  "0 < l \<Longrightarrow> totalPagesOf n (JsInt l) = JsInt \<lceil>real n / real_of_int l\<rceil>"
proof -
  assume "0 < l"
  have "\<lceil>real_of_int (int n) / real_of_int l\<rceil> = - (- int n div l)"
    by (rule ceiling_divide_eq_div)
  then show ?thesis
    using \<open>0 < l\<close> by (simp add: totalPagesOf_def)
qed

lemma sortNewestFirst_descending:
  "sorted_wrt (\<lambda>a b. createdAt b \<le> createdAt a) (sortNewestFirst us)"
proof -
  have "sorted (map (\<lambda>u. - createdAt u) (sortNewestFirst us))"
    by (simp add: sortNewestFirst_def)
  then show ?thesis
    by (simp add: sorted_map)
qed

lemma page_descending:
  "sorted_wrt (\<lambda>a b. createdAt b \<le> createdAt a) (take m (drop k (sortNewestFirst us)))"
  by (intro sorted_wrt_take sorted_wrt_drop sortNewestFirst_descending)

lemma sortNewestFirst_set: "set (sortNewestFirst us) = set us"
  by (simp add: sortNewestFirst_def)

lemma findPage_counts:
  "0 \<le> sk \<Longrightarrow> 0 < m \<Longrightarrow>
   findPage other coll t (JsInt sk) (JsInt m)
     = Inr (take (nat m) (drop (nat sk) (sortNewestFirst (matchingUsers coll t))))"
  by (simp add: findPage_def Let_def)

lemma queryNumber_defaults:
  "queryNumber None 1 = JsInt 1" "queryNumber None 10 = JsInt 10"
  by (simp_all add: queryNumber_def)

text \<open>
  C7, as the code has it. When the model of the tenant is obtained and \<open>page\<close> and
  \<open>limit\<close> are absent (then 1 and 10) or parse to integers of at least 1, the route
  answers 200 with the records of the tenant sorted by creation time, newest first, from
  which \<open>(page - 1) * limit\<close> are skipped and at most \<open>limit\<close> taken, and with
  \<open>totalPages\<close> the ceiling of the count over \<open>limit\<close>. A parameter that does not parse
  is not replaced by its default.
\<close>

theorem listUsers_page:
  assumes "getUserModel env ev tenantId s = (Inr (RegisteredUser conn), s')"
    and "queryNumber page 1 = JsInt p" "1 \<le> p"
    and "queryNumber limit 10 = JsInt l" "1 \<le> l"
  shows "listUsers env ev other db tenantId page limit s =
           ((200,
             UsersData
               (take (nat l) (drop (nat ((p - 1) * l))
                  (sortNewestFirst (matchingUsers (db (conn_uri conn)) tenantId))))
               \<lparr>currentPage = JsInt p,
                totalPages = JsInt \<lceil>real (length (matchingUsers (db (conn_uri conn)) tenantId))
                                      / real_of_int l\<rceil>,
                totalUsers = length (matchingUsers (db (conn_uri conn)) tenantId),
                pageLimit = JsInt l\<rparr>
               (tenantDbName (normalizedTenantId tenantId)) ''registeredusers''),
            s')
     \<and> sorted_wrt (\<lambda>a b. createdAt b \<le> createdAt a)
          (take (nat l) (drop (nat ((p - 1) * l))
             (sortNewestFirst (matchingUsers (db (conn_uri conn)) tenantId))))
     \<and> queryNumber None 1 = JsInt 1 \<and> queryNumber None 10 = JsInt 10"
proof -
  have sk: "skipOf (JsInt p) (JsInt l) = JsInt ((p - 1) * l)"
    by (simp add: skipOf_def)
  have nonneg: "0 \<le> (p - 1) * l" and pos: "0 < l"
    using assms(3,5) by simp_all
  have fp: "findPage other (db (conn_uri conn)) tenantId (JsInt ((p - 1) * l)) (JsInt l)
        = Inr (take (nat l) (drop (nat ((p - 1) * l))
                 (sortNewestFirst (matchingUsers (db (conn_uri conn)) tenantId))))"
    by (rule findPage_counts [OF nonneg pos])
  have "listUsers env ev other db tenantId page limit s =
           ((200,
             UsersData
               (take (nat l) (drop (nat ((p - 1) * l))
                  (sortNewestFirst (matchingUsers (db (conn_uri conn)) tenantId))))
               \<lparr>currentPage = JsInt p,
                totalPages = totalPagesOf (length (matchingUsers (db (conn_uri conn)) tenantId)) (JsInt l),
                totalUsers = length (matchingUsers (db (conn_uri conn)) tenantId),
                pageLimit = JsInt l\<rparr>
               (tenantDbName (normalizedTenantId tenantId)) ''registeredusers''),
            s')"
    by (simp add: listUsers_def assms(1,2,4) sk fp Let_def)
  then show ?thesis
    by (simp add: totalPagesOf_ceiling [OF pos] page_descending queryNumber_defaults)
qed

lemma parse_examples:
  "parseInt ''2'' = JsInt 2" "parseInt ''10'' = JsInt 10" "parseInt ''abc'' = JsNaN"
  by (simp_all add: parseInt_def trimStart_def isWhiteSpace_def dropSign_def isDigit_def
        digitValue_def Let_def)

lemma xyz_model:
  "getUserModel (Some localUri) OpenEvent ''xyz'' initialState =
     (Inr (RegisteredUser \<lparr>conn_id = 0, conn_uri = xyzUri, readyState = 1\<rparr>),
      initialState\<lparr>created := 1,
        tenantConnections := [''xyz'' \<mapsto> \<lparr>conn_id = 0, conn_uri = xyzUri, readyState = 1\<rparr>],
        tenantUserModels := [''xyz'' \<mapsto> RegisteredUser \<lparr>conn_id = 0, conn_uri = xyzUri, readyState = 1\<rparr>]\<rparr>)"
  by (simp add: getUserModel_def getTenantConnection_def connectionStart_def connectionSettled_def
        cachedConnection_def initialState_def normalized_examples tenantUri_def tenantDbName_def
        localUri_def xyzUri_def Let_def)

lemma upt_26: "[1..<26] = [1, 2, 3, 4, 5, 6, 7, 8, 9, 10, 11, 12, 13, 14, 15, 16, 17, 18, 19, 20,
   21, 22, 23, 24, 25]"
  by code_simp

lemma twentyFive_matching: "matchingUsers twentyFiveUsers ''xyz'' = twentyFiveUsers"
  by (simp add: matchingUsers_def twentyFiveUsers_def userAt_def)

lemma twentyFive_sorted:
  "sortNewestFirst twentyFiveUsers =
     map userAt [25, 24, 23, 22, 21, 20, 19, 18, 17, 16, 15, 14, 13, 12, 11, 10, 9, 8, 7, 6, 5, 4, 3, 2, 1]"
  unfolding sortNewestFirst_def twentyFiveUsers_def upt_26
  by (simp add: userAt_def)


lemma page_two_of_twentyFive:
  "take 10 (drop 10 (sortNewestFirst (matchingUsers twentyFiveUsers ''xyz'')))
     = map userAt [15, 14, 13, 12, 11, 10, 9, 8, 7, 6]"
  by (simp add: twentyFive_matching twentyFive_sorted)

lemma twentyFive_length: "length (matchingUsers twentyFiveUsers ''xyz'') = 25"
  by (simp add: twentyFive_matching) (simp add: twentyFiveUsers_def)

theorem listUsers_page_witness:
  "queryNumber (Some ''2'') 1 = JsInt 2 \<and> queryNumber (Some ''10'') 10 = JsInt 10
   \<and> (\<exists>s'. listUsers (Some localUri) OpenEvent strictDriver xyzDatabase ''xyz'' (Some ''2'') (Some ''10'')
               initialState =
          ((200,
            UsersData (map userAt [15, 14, 13, 12, 11, 10, 9, 8, 7, 6])
              \<lparr>currentPage = JsInt 2, totalPages = JsInt 3, totalUsers = 25, pageLimit = JsInt 10\<rparr>
              ''tenant_xyz'' ''registeredusers''),
           s'))"
proof -
  let ?c = "\<lparr>conn_id = 0, conn_uri = xyzUri, readyState = 1\<rparr>"
  have p: "queryNumber (Some ''2'') 1 = JsInt 2" and l: "queryNumber (Some ''10'') 10 = JsInt 10"
    by (simp_all add: queryNumber_def parse_examples)
  have db: "xyzDatabase xyzUri = twentyFiveUsers"
    by (simp add: xyzDatabase_def)
  have c: "\<lceil>(25::real) / 10\<rceil> = 3"
    by (simp add: ceiling_eq_iff)
  have "2 - 1 = (1::int)" "nat (1 * 10) = 10" "nat 10 = 10"
    by simp_all
  then show ?thesis
    using listUsers_page [OF xyz_model p _ l, of strictDriver xyzDatabase] p l
    by (simp add: db page_two_of_twentyFive twentyFive_length c tenantDbName_def
          normalized_examples)
qed

text \<open>
  C7. The claim also has \<open>page\<close> and \<open>limit\<close> default to 1 and 10 when they are
  invalid. The defaults come from the destructuring of the query and stand in for an absent
  parameter only: \<open>page=abc\<close> parses to NaN, the skip is NaN, and the answer is not the
  first page, whether the driver tolerates the NaN (the page reported is NaN) or rejects
  it (status 500).
\<close>

theorem invalid_page_is_not_defaulted:
  "queryNumber (Some ''abc'') 1 = JsNaN
   \<and> skipOf (queryNumber (Some ''abc'') 1) (queryNumber None 10) = JsNaN
   \<and> fst (fst (listUsers (Some localUri) OpenEvent strictDriver xyzDatabase ''xyz''
                 (Some ''abc'') None initialState)) = 500
   \<and> fst (listUsers (Some localUri) OpenEvent lenientDriver xyzDatabase ''xyz''
            (Some ''abc'') None initialState)
       \<noteq> fst (listUsers (Some localUri) OpenEvent lenientDriver xyzDatabase ''xyz''
               None None initialState)"
proof -
  have q: "queryNumber (Some ''abc'') 1 = JsNaN" "queryNumber None 10 = JsInt 10"
    "queryNumber None 1 = JsInt 1"
    by (simp_all add: queryNumber_def parse_examples)
  have sk: "skipOf JsNaN (JsInt 10) = JsNaN" "skipOf (JsInt 1) (JsInt 10) = JsInt 0"
    by (simp_all add: skipOf_def)
  have strict: "fst (fst (listUsers (Some localUri) OpenEvent strictDriver xyzDatabase ''xyz''
                 (Some ''abc'') None initialState)) = 500"
    by (simp add: listUsers_def xyz_model q sk findPage_def strictDriver_def Let_def)
  have a: "\<exists>us pg. fst (listUsers (Some localUri) OpenEvent lenientDriver xyzDatabase ''xyz''
            (Some ''abc'') None initialState)
            = (200, UsersData us pg ''tenant_xyz'' ''registeredusers'') \<and> currentPage pg = JsNaN"
    by (simp add: listUsers_def xyz_model q sk findPage_def lenientDriver_def Let_def
          tenantDbName_def normalized_examples)
  have b: "\<exists>us pg. fst (listUsers (Some localUri) OpenEvent lenientDriver xyzDatabase ''xyz''
            None None initialState)
            = (200, UsersData us pg ''tenant_xyz'' ''registeredusers'') \<and> currentPage pg = JsInt 1"
    by (simp add: listUsers_def xyz_model q sk findPage_def lenientDriver_def Let_def
          tenantDbName_def normalized_examples)
  have "fst (listUsers (Some localUri) OpenEvent lenientDriver xyzDatabase ''xyz''
            (Some ''abc'') None initialState)
       \<noteq> fst (listUsers (Some localUri) OpenEvent lenientDriver xyzDatabase ''xyz''
               None None initialState)"
    using a b by auto
  then show ?thesis
    using q sk strict by simp
qed

section \<open>One registered user by id\<close>

lemma one_user_awaited:
  "getUserByIdAwaited (Some localUri) OpenEvent oneUserDatabase ''xyz''
     ''507f1f77bcf86cd799439011'' initialState = (200, UserData storedUser)"
  by (simp add: getUserByIdAwaited_def xyz_model oneUserDatabase_def isObjectId_def
        storedUser_def)

lemma absent_user_awaited:
  "getUserByIdAwaited (Some localUri) OpenEvent oneUserDatabase ''xyz''
     ''507f1f77bcf86cd799439012'' initialState = (404, UserFailure ''User not found'' [])"
  by (simp add: getUserByIdAwaited_def xyz_model oneUserDatabase_def isObjectId_def
        storedUser_def)

text \<open>
  C8. The route is meant to answer with the record or with 404. Its first statement
  keeps the promise of \<open>getUserModel\<close> instead of the model, a promise has no
  \<open>findById\<close>, and the call throws: every request is answered 500, for a stored record
  and for an absent one. With the call awaited, as in the list route, the same requests are
  answered 200 and 404.
\<close>

theorem getUserById_always_fails:
  "getUserById env ev db tenantId userId s
     = (500, UserFailure ''Error fetching user'' ''UserModel.findById is not a function'')
   \<and> getUserByIdAwaited (Some localUri) OpenEvent oneUserDatabase ''xyz''
       ''507f1f77bcf86cd799439011'' initialState = (200, UserData storedUser)
   \<and> getUserByIdAwaited (Some localUri) OpenEvent oneUserDatabase ''xyz''
       ''507f1f77bcf86cd799439012'' initialState = (404, UserFailure ''User not found'' [])"
  by (simp add: getUserById_def one_user_awaited absent_user_awaited)

section \<open>Schema registry: updating a schema\<close>




text \<open>A given key is stored as it is given; a key that is not given is stored with the
  default of the model.\<close>

lemma castField_given:
  "field_id (castField e) = sub_id e"
  "label (castField e) = sub_label e"
  "sub_type e = Some ty \<Longrightarrow> field_type (castField e) = ty"
  "sub_options e = Some os \<Longrightarrow> options (castField e) = Some os"
  "sub_required e = Some r \<Longrightarrow> required (validation (castField e)) = r"
  "minLength (validation (castField e)) = sub_minLength e"
  "maxLength (validation (castField e)) = sub_maxLength e"
  "pattern (validation (castField e)) = sub_pattern e"
  "sub_errorMessage e = Some m \<Longrightarrow> errorMessage (castField e) = Some m"
  by (simp_all add: castField_def)

lemma castField_defaults:
  "sub_type e = None \<Longrightarrow> field_type (castField e) = TText"
  "sub_options e = None \<Longrightarrow> options (castField e) = Some []"
  "sub_required e = None \<Longrightarrow> required (validation (castField e)) = False"
  "sub_errorMessage e = None \<Longrightarrow> errorMessage (castField e) = Some ''This field is invalid''"
  by (simp_all add: castField_def)





end
